theory Spec2Isabelle
  imports Complex_Main "HOL-Library.AList" "HOL-Library.Char_ord" "HOL-Library.List_Lexorder" "HOL-Library.Multiset" "HOL-Library.Word"
begin

section \<open>Retry controllers\<close>

text \<open>
  A value that JavaScript code throws: an \<open>Error\<close> object (name and message), or the value
  \<open>undefined\<close>, which is what \<open>throw lastError\<close> raises when no attempt ever ran.
\<close>

datatype js_error = Error string string | Undefined

text \<open>
  What a retry controller does besides returning: it suspends (\<open>sleep\<close>, milliseconds), it
  invokes the wrapped operation (tagged with the attempt number), it writes a console warning
  \<open>Attempt a/max failed\<close> and, in \<open>ACSAPIService\<close>, it logs the final failure.
\<close>

datatype event = Sleep int | Invoke int | Warn int int js_error | LogError string js_error

text \<open>
  \<open>ACSAPIService.fetchBatchWithRetry\<close> (acsApiService.js, lines 379-407). The wrapped
  operation is \<open>await this.enforceRateLimit(); return await this.fetchBatchFromAPI(...)\<close>;
  its outcome at attempt \<open>a\<close> is \<open>operation a\<close>, \<open>Inl\<close> for a thrown value. The loop variable
  runs from 1 while \<open>attempt <= maxRetries\<close>; \<open>lastError\<close> is \<open>None\<close> while unassigned.
  The result is paired with the events in the order they happen.
\<close>

function fetchBatchWithRetry_loop ::
  "int \<Rightarrow> (int \<Rightarrow> js_error + 'a) \<Rightarrow> int \<Rightarrow> js_error option \<Rightarrow> (js_error + 'a) \<times> event list" where
  "fetchBatchWithRetry_loop maxRetries operation attempt lastError =
     (if attempt \<le> maxRetries then
        (let waited = (if attempt > 1 then [Sleep (2 ^ nat (attempt - 1) * 1000)] else [])
         in case operation attempt of
              Inr v \<Rightarrow> (Inr v, waited @ [Invoke attempt])
            | Inl e \<Rightarrow>
                if attempt = maxRetries
                then (Inl e, waited @ [Invoke attempt, Warn attempt maxRetries e,
                                       LogError ''Max retries exceeded for batch'' e])
                else (case fetchBatchWithRetry_loop maxRetries operation (attempt + 1) (Some e) of
                        (r, tr) \<Rightarrow> (r, waited @ [Invoke attempt, Warn attempt maxRetries e] @ tr)))
      else (case lastError of None \<Rightarrow> (Inl Undefined, []) | Some e \<Rightarrow> (Inl e, [])))"
  by pat_completeness auto
termination
  by (relation "measure (\<lambda>(m, f, a, l). nat (m + 1 - a))") auto

declare fetchBatchWithRetry_loop.simps [simp del]

definition fetchBatchWithRetry ::
  "int \<Rightarrow> (int \<Rightarrow> js_error + 'a) \<Rightarrow> (js_error + 'a) \<times> event list" where
  "fetchBatchWithRetry maxRetries operation = fetchBatchWithRetry_loop maxRetries operation 1 None"

text \<open>
  The constructor's default for the one time bound the service has, the per-request abort
  timeout: \<open>this.timeout = options.timeout || 30000\<close>.
\<close>

definition default_timeout :: int where
  "default_timeout = 30000"

text \<open>
  \<open>CensusDataFetcher.fetchWithRetry\<close> (part_000, lines 250-267). It sleeps after a failed
  attempt that is not the last, for \<open>Math.min(1000 * Math.pow(2, attempt), 10000)\<close>, and falls
  off the loop returning \<open>undefined\<close> (\<open>Inr None\<close>) when \<open>maxRetries < 1\<close>.
\<close>

function fetchWithRetry_loop ::
  "int \<Rightarrow> (int \<Rightarrow> js_error + 'a) \<Rightarrow> int \<Rightarrow> (js_error + 'a option) \<times> event list" where
  "fetchWithRetry_loop maxRetries fetchFunction attempt =
     (if attempt \<le> maxRetries then
        (case fetchFunction attempt of
           Inr v \<Rightarrow> (Inr (Some v), [Invoke attempt])
         | Inl e \<Rightarrow>
             if attempt = maxRetries then (Inl e, [Invoke attempt, Warn attempt maxRetries e])
             else (case fetchWithRetry_loop maxRetries fetchFunction (attempt + 1) of
                     (r, tr) \<Rightarrow>
                       (r, [Invoke attempt, Warn attempt maxRetries e,
                            Sleep (min (1000 * 2 ^ nat attempt) 10000)] @ tr)))
      else (Inr None, []))"
  by pat_completeness auto
termination
  by (relation "measure (\<lambda>(m, f, a). nat (m + 1 - a))") auto

declare fetchWithRetry_loop.simps [simp del]

definition fetchWithRetry ::
  "int \<Rightarrow> (int \<Rightarrow> js_error + 'a) \<Rightarrow> (js_error + 'a option) \<times> event list" where
  "fetchWithRetry maxRetries fetchFunction = fetchWithRetry_loop maxRetries fetchFunction 1"

text \<open>The attempt numbers at which a trace invokes the operation, in order.\<close>

fun invoked :: "event list \<Rightarrow> int list" where
  "invoked [] = []"
| "invoked (Invoke a # tr) = a # invoked tr"
| "invoked (e # tr) = invoked tr"

section \<open>The ZIP code index\<close>

text \<open>
  JavaScript numbers are modelled by reals (and grid indices, counts and limits by integers):
  the model is the exact-arithmetic reading of the code. A record has the fields the index
  reads (\<open>zip\<close> is \<open>zip_code\<close> here), each of them present: \<open>lat\<close> and \<open>lng\<close> are a number or
  \<open>null\<close> (\<open>None\<close>), and \<open>state_id\<close>, \<open>city\<close> and \<open>county_fips\<close> are strings, falsy when empty. A record
  that lacks one of these properties is not a value of this type.
\<close>

record zip_record =
  zip_code :: string
  lat :: "real option"
  lng :: "real option"
  state_id :: string
  city :: string
  county_fips :: string

text \<open>An entry \<open>{zip, lat, lng}\<close> of a grid cell, and a search result \<open>{...record, distance}\<close>.\<close>

datatype stub = Stub (stub_zip: string) (stub_lat: real) (stub_lng: real)

record search_hit =
  hit_record :: zip_record
  distance :: real

text \<open>
  A JavaScript \<open>Map\<close> is an association list in insertion order: \<open>Map.set\<close> replaces the value
  of a key that is present where it stands and appends a new key (\<open>AList.update\<close>). A
  \<open>Set\<close> is a list in insertion order, \<open>Set.add\<close> appending what is not yet there. A grid key
  \<open>`${latGrid},${lngGrid}`\<close> is the pair of the two integers.
\<close>

record zip_index =
  zips :: "(string \<times> zip_record) list"
  stateIndex :: "(string \<times> string list) list"
  cityIndex :: "(string \<times> string list) list"
  countyIndex :: "(string \<times> string list) list"
  spatialIndex :: "((int \<times> int) \<times> stub list) list"
  loaded :: bool
  totalRecords :: nat

definition new_ZIPCodeIndex :: zip_index where
  "new_ZIPCodeIndex = \<lparr>zips = [], stateIndex = [], cityIndex = [], countyIndex = [],
     spatialIndex = [], loaded = False, totalRecords = 0\<rparr>"

definition set_add :: "'a \<Rightarrow> 'a list \<Rightarrow> 'a list" where
  "set_add x xs = (if x \<in> set xs then xs else xs @ [x])"

text \<open>
  \<open>if (!index.has(key)) index.set(key, new Set()); index.get(key).add(zip)\<close>, the step that
  \<open>indexRecord\<close> performs on each of its three category maps.
\<close>

definition index_add :: "string \<Rightarrow> string \<Rightarrow> (string \<times> string list) list \<Rightarrow> (string \<times> string list) list" where
  "index_add key z index =
     AList.update key (set_add z (case map_of index key of None \<Rightarrow> [] | Some zs \<Rightarrow> zs)) index"

text \<open>\<open>toLowerCase\<close>, \<open>toUpperCase\<close> and \<open>padStart\<close> on strings of ASCII characters.\<close>

definition toLowerCase :: "string \<Rightarrow> string" where
  "toLowerCase s =
     map (\<lambda>c. if 65 \<le> (of_char c :: nat) \<and> (of_char c :: nat) \<le> 90
               then char_of ((of_char c :: nat) + 32) else c) s"

definition toUpperCase :: "string \<Rightarrow> string" where
  "toUpperCase s =
     map (\<lambda>c. if 97 \<le> (of_char c :: nat) \<and> (of_char c :: nat) \<le> 122
               then char_of ((of_char c :: nat) - 32) else c) s"

definition padStart :: "nat \<Rightarrow> char \<Rightarrow> string \<Rightarrow> string" where
  "padStart n c s = replicate (n - length s) c @ s"

text \<open>\<open>ZIPCodeIndex.indexRecord\<close> (part_001, lines 124-152).\<close>

definition indexRecord :: "zip_record \<Rightarrow> zip_index \<Rightarrow> zip_index" where
  "indexRecord record idx =
     (let idx1 = idx\<lparr>zips := AList.update (zip_code record) record (zips idx)\<rparr>;
          idx2 = (if state_id record \<noteq> ''''
                  then idx1\<lparr>stateIndex := index_add (state_id record) (zip_code record) (stateIndex idx1)\<rparr>
                  else idx1);
          idx3 = (if city record \<noteq> ''''
                  then idx2\<lparr>cityIndex :=
                         index_add (toLowerCase (city record) @ '','' @ state_id record)
                           (zip_code record) (cityIndex idx2)\<rparr>
                  else idx2)
      in if county_fips record \<noteq> ''''
         then idx3\<lparr>countyIndex := index_add (county_fips record) (zip_code record) (countyIndex idx3)\<rparr>
         else idx3)"

text \<open>\<open>getGridKey\<close> (lines 182-186) and \<open>buildSpatialIndex\<close> (lines 157-177), which walks
  \<open>this.zips\<close> in insertion order and appends a stub to the cell of each record that has
  coordinates.\<close>

definition getGridKey :: "real \<Rightarrow> real \<Rightarrow> real \<Rightarrow> int \<times> int" where
  "getGridKey la lo gridSize = (\<lfloor>la / gridSize\<rfloor>, \<lfloor>lo / gridSize\<rfloor>)"

definition GRID_SIZE :: real where
  "GRID_SIZE = 0.5"

definition cell_push :: "(string \<times> zip_record) \<Rightarrow> ((int \<times> int) \<times> stub list) list \<Rightarrow> ((int \<times> int) \<times> stub list) list" where
  "cell_push entry sp =
     (case (lat (snd entry), lng (snd entry)) of
        (Some la, Some lo) \<Rightarrow>
          (let gridKey = getGridKey la lo GRID_SIZE
           in AList.update gridKey
                ((case map_of sp gridKey of None \<Rightarrow> [] | Some cells \<Rightarrow> cells) @ [Stub (fst entry) la lo]) sp)
      | _ \<Rightarrow> sp)"

definition buildSpatialIndex :: "zip_index \<Rightarrow> zip_index" where
  "buildSpatialIndex idx = idx\<lparr>spatialIndex := fold cell_push (zips idx) (spatialIndex idx)\<rparr>"

text \<open>
  \<open>loadFromJSON\<close> (lines 33-58) once the JSON document has arrived: \<open>records\<close> is the array, or
  the values of the object, that it holds.
\<close>

definition loadFromJSON :: "zip_record list \<Rightarrow> zip_index \<Rightarrow> zip_index" where
  "loadFromJSON records idx =
     (let idx1 = fold indexRecord records idx
      in buildSpatialIndex (idx1\<lparr>loaded := True, totalRecords := length (zips idx1)\<rparr>))"

text \<open>\<open>get\<close> (lines 195-197): \<open>None\<close> is \<open>null\<close>.\<close>

definition get :: "zip_index \<Rightarrow> string \<Rightarrow> zip_record option" where
  "get idx z = map_of (zips idx) (padStart 5 (CHR ''0'') z)"

text \<open>\<open>getByState\<close> (lines 202-212): push, then leave the loop once \<open>results.length >= limit\<close>.\<close>

fun getByState_loop :: "zip_index \<Rightarrow> int \<Rightarrow> string list \<Rightarrow> zip_record option list \<Rightarrow> zip_record option list" where
  "getByState_loop idx limit [] results = results"
| "getByState_loop idx limit (z # zipSet) results =
     (let results' = results @ [get idx z]
      in if int (length results') \<ge> limit then results'
         else getByState_loop idx limit zipSet results')"

definition getByState :: "zip_index \<Rightarrow> string \<Rightarrow> int \<Rightarrow> zip_record option list" where
  "getByState idx stateId limit =
     getByState_loop idx limit
       (case map_of (stateIndex idx) (toUpperCase stateId) of None \<Rightarrow> [] | Some zipSet \<Rightarrow> zipSet) []"

text \<open>
  \<open>Math.atan2\<close> on reals, and the distance that \<open>searchByRadius\<close> computes for a stub
  (lines 286-292): the Haversine formula with \<open>earthRadius = 6371\<close>.
\<close>

definition atan2 :: "real \<Rightarrow> real \<Rightarrow> real" where
  "atan2 y x =
     (if x > 0 then arctan (y / x)
      else if x < 0 then (if y \<ge> 0 then arctan (y / x) + pi else arctan (y / x) - pi)
      else if y > 0 then pi / 2 else if y < 0 then - pi / 2 else 0)"

definition haversine :: "real \<Rightarrow> real \<Rightarrow> real \<Rightarrow> real \<Rightarrow> real" where
  "haversine la lo cell_lat cell_lng =
     (let dLat = (cell_lat - la) * pi / 180;
          dLng = (cell_lng - lo) * pi / 180;
          a = sin (dLat / 2) * sin (dLat / 2) +
              cos (la * pi / 180) * cos (cell_lat * pi / 180) * sin (dLng / 2) * sin (dLng / 2)
      in 6371 * 2 * atan2 (sqrt a) (sqrt (1 - a)))"

text \<open>
  \<open>searchByRadius\<close> (lines 255-313). The three nested loops visit the stubs of the cells
  \<open>minLatGrid..maxLatGrid\<close> by \<open>minLngGrid..maxLngGrid\<close> in order; \<open>searchByRadius_scan\<close> is the
  body run over that sequence, with the early \<open>return\<close> once \<open>results.length >= limit\<close>, which
  is tested for every stub within the radius, pushed or not. Both returns sort by
  distance (\<open>Array.prototype.sort\<close> is stable, as \<open>sort_key\<close> is). Where the cosine of the
  query latitude is 0, the source divides by what floating point makes of it, a tiny
  number, and the real quotient by 0 is 0 here: the properties below hold for every box.
\<close>

definition in_box :: "real \<Rightarrow> real \<Rightarrow> real \<Rightarrow> real \<Rightarrow> stub \<Rightarrow> bool" where
  "in_box minLat maxLat minLng maxLng cell \<longleftrightarrow>
     stub_lat cell \<ge> minLat \<and> stub_lat cell \<le> maxLat \<and>
     stub_lng cell \<ge> minLng \<and> stub_lng cell \<le> maxLng"

fun searchByRadius_scan ::
  "zip_index \<Rightarrow> real \<Rightarrow> real \<Rightarrow> real \<Rightarrow> int \<Rightarrow> real \<times> real \<times> real \<times> real \<Rightarrow>
   stub list \<Rightarrow> search_hit list \<Rightarrow> search_hit list" where
  "searchByRadius_scan idx la lo radiusKm limit box [] results = sort_key distance results"
| "searchByRadius_scan idx la lo radiusKm limit (minLat, maxLat, minLng, maxLng) (cell # cells) results =
     (if in_box minLat maxLat minLng maxLng cell then
        (let d = haversine la lo (stub_lat cell) (stub_lng cell)
         in if d \<le> radiusKm then
              (let results' = (case get idx (stub_zip cell) of
                                 Some record \<Rightarrow> results @ [\<lparr>hit_record = record, distance = d\<rparr>]
                               | None \<Rightarrow> results)
               in if int (length results') \<ge> limit then sort_key distance results'
                  else searchByRadius_scan idx la lo radiusKm limit (minLat, maxLat, minLng, maxLng)
                         cells results')
            else searchByRadius_scan idx la lo radiusKm limit (minLat, maxLat, minLng, maxLng)
                   cells results)
      else searchByRadius_scan idx la lo radiusKm limit (minLat, maxLat, minLng, maxLng)
             cells results)"

definition grid_cells :: "zip_index \<Rightarrow> int \<Rightarrow> int \<Rightarrow> int \<Rightarrow> int \<Rightarrow> stub list" where
  "grid_cells idx minLatGrid maxLatGrid minLngGrid maxLngGrid =
     concat (map (\<lambda>latGrid.
       concat (map (\<lambda>lngGrid.
         (case map_of (spatialIndex idx) (latGrid, lngGrid) of None \<Rightarrow> [] | Some cells \<Rightarrow> cells))
         [minLngGrid..maxLngGrid]))
       [minLatGrid..maxLatGrid])"

definition searchByRadius :: "zip_index \<Rightarrow> real \<Rightarrow> real \<Rightarrow> real \<Rightarrow> int \<Rightarrow> search_hit list" where
  "searchByRadius idx la lo radiusKm limit =
     (let latDelta = radiusKm / 111.32;
          lngDelta = radiusKm / (111.32 * cos (la * pi / 180));
          minLat = la - latDelta;
          maxLat = la + latDelta;
          minLng = lo - lngDelta;
          maxLng = lo + lngDelta;
          minLatGrid = \<lfloor>minLat / GRID_SIZE\<rfloor>;
          maxLatGrid = \<lfloor>maxLat / GRID_SIZE\<rfloor>;
          minLngGrid = \<lfloor>minLng / GRID_SIZE\<rfloor>;
          maxLngGrid = \<lfloor>maxLng / GRID_SIZE\<rfloor>
      in searchByRadius_scan idx la lo radiusKm limit (minLat, maxLat, minLng, maxLng)
           (grid_cells idx minLatGrid maxLatGrid minLngGrid maxLngGrid) [])"

text \<open>
  Names for what \<open>searchByRadius\<close> computes on the way: the bounding box
  \<open>(minLat, maxLat, minLng, maxLng)\<close>, the stubs of the grid cells it visits, in order, and
  the results that the loop body pushes for a sequence of stubs when no limit stops it.
\<close>

definition search_box :: "real \<Rightarrow> real \<Rightarrow> real \<Rightarrow> real \<times> real \<times> real \<times> real" where
  "search_box la lo radiusKm =
     (la - radiusKm / 111.32, la + radiusKm / 111.32,
      lo - radiusKm / (111.32 * cos (la * pi / 180)),
      lo + radiusKm / (111.32 * cos (la * pi / 180)))"

definition search_cells :: "zip_index \<Rightarrow> real \<Rightarrow> real \<Rightarrow> real \<Rightarrow> stub list" where
  "search_cells idx la lo radiusKm =
     (case search_box la lo radiusKm of (minLat, maxLat, minLng, maxLng) \<Rightarrow>
        grid_cells idx \<lfloor>minLat / GRID_SIZE\<rfloor> \<lfloor>maxLat / GRID_SIZE\<rfloor>
          \<lfloor>minLng / GRID_SIZE\<rfloor> \<lfloor>maxLng / GRID_SIZE\<rfloor>)"

fun matches ::
  "zip_index \<Rightarrow> real \<Rightarrow> real \<Rightarrow> real \<Rightarrow> real \<times> real \<times> real \<times> real \<Rightarrow> stub list \<Rightarrow> search_hit list" where
  "matches idx la lo radiusKm box [] = []"
| "matches idx la lo radiusKm (minLat, maxLat, minLng, maxLng) (cell # cells) =
     (if in_box minLat maxLat minLng maxLng cell \<and>
         haversine la lo (stub_lat cell) (stub_lng cell) \<le> radiusKm
      then (case get idx (stub_zip cell) of
              Some record \<Rightarrow>
                \<lparr>hit_record = record,
                 distance = haversine la lo (stub_lat cell) (stub_lng cell)\<rparr> #
                matches idx la lo radiusKm (minLat, maxLat, minLng, maxLng) cells
            | None \<Rightarrow> matches idx la lo radiusKm (minLat, maxLat, minLng, maxLng) cells)
      else matches idx la lo radiusKm (minLat, maxLat, minLng, maxLng) cells)"

text \<open>Every stub of the spatial index, cell after cell.\<close>

definition all_stubs :: "((int \<times> int) \<times> stub list) list \<Rightarrow> stub list" where
  "all_stubs sp = concat (map snd sp)"

text \<open>The ZIP keys that the state index holds for a state code, in insertion order.\<close>

definition state_zips :: "zip_index \<Rightarrow> string \<Rightarrow> string list" where
  "state_zips idx s = (case map_of (stateIndex idx) s of None \<Rightarrow> [] | Some zipSet \<Rightarrow> zipSet)"

section \<open>The cache store\<close>

text \<open>
  \<open>localStorage\<close> holds strings. Of a stored string the code uses its length and what
  \<open>JSON.parse\<close> makes of it: \<open>Garbage\<close> when parsing throws or yields \<open>null\<close> (so that reading a
  property throws), otherwise a value with its \<open>expiry\<close> (\<open>None\<close> when the property is
  missing), the number that \<open>new Date(cached.metadata?.cachedAt || 0).getTime()\<close> makes of it, and
  the cached \<open>data\<close> and \<open>metadata\<close> as an opaque text. That number is the instant (in
  milliseconds) of a \<open>cachedAt\<close> that is a date string, 0 when there is no \<open>cachedAt\<close>, and \<open>NaN\<close>
  when \<open>cachedAt\<close> is a string that is not a date.
\<close>

datatype js_number = Number int | NaN

datatype json = Garbage | Entry (expiry: "int option") (cachedAt: js_number) (payload: string)

datatype stored = Stored (value_length: nat) (parsed: json)

text \<open>
  The storage area is the list of its key/value pairs in the order of \<open>localStorage.key(i)\<close>.
  \<open>removeItem\<close> takes a pair out and the pairs behind it move up by one index; \<open>setItem\<close>
  replaces the value of a key that is present and appends a new key, and throws a
  \<open>QuotaExceededError\<close> when the area would outgrow the browser's quota.
\<close>

record local_storage =
  items :: "(string \<times> stored) list"
  quota :: nat

definition storage_size :: "(string \<times> stored) list \<Rightarrow> nat" where
  "storage_size kvs = sum_list (map (\<lambda>kv. length (fst kv) + value_length (snd kv)) kvs)"

definition removeItem :: "string \<Rightarrow> local_storage \<Rightarrow> local_storage" where
  "removeItem key ls = ls\<lparr>items := AList.delete key (items ls)\<rparr>"

definition setItem :: "string \<Rightarrow> stored \<Rightarrow> local_storage \<Rightarrow> js_error + local_storage" where
  "setItem key v ls =
     (if storage_size (AList.update key v (items ls)) > quota ls
      then Inl (Error ''QuotaExceededError'' ''The quota has been exceeded.'')
      else Inr (ls\<lparr>items := AList.update key v (items ls)\<rparr>))"

definition error_name :: "js_error \<Rightarrow> string" where
  "error_name e = (case e of Error n m \<Rightarrow> n | Undefined \<Rightarrow> '''')"

definition startsWith :: "string \<Rightarrow> string \<Rightarrow> bool" where
  "startsWith s p \<longleftrightarrow> take (length p) s = p"

text \<open>\<open>this.cacheDuration = 30 * 24 * 60 * 60 * 1000\<close>.\<close>

definition cacheDuration :: int where
  "cacheDuration = 30 * 24 * 60 * 60 * 1000"

text \<open>
  \<open>cleanCache\<close> (acsApiService.js, lines 228-253): the loop over \<open>i\<close> from 0 while
  \<open>i < localStorage.length\<close>, reading \<open>localStorage.key(i)\<close> anew each round; it returns the
  storage and the count \<open>cleaned\<close> that it reports. \<open>cached.expiry && now > cached.expiry\<close>
  holds for an expiry that is present, not 0 and in the past.
\<close>

definition is_expired :: "int \<Rightarrow> int option \<Rightarrow> bool" where
  "is_expired now e = (case e of None \<Rightarrow> False | Some t \<Rightarrow> t \<noteq> 0 \<and> now > t)"

function cleanCache_loop :: "string \<Rightarrow> int \<Rightarrow> nat \<Rightarrow> local_storage \<Rightarrow> nat \<Rightarrow> local_storage \<times> nat" where
  "cleanCache_loop cachePrefix now i ls cleaned =
     (if i < length (items ls) then
        (let key = fst (items ls ! i)
         in if startsWith key cachePrefix then
              (case parsed (snd (items ls ! i)) of
                 Garbage \<Rightarrow> cleanCache_loop cachePrefix now (i + 1) (removeItem key ls) (cleaned + 1)
               | Entry e c p \<Rightarrow>
                   if is_expired now e
                   then cleanCache_loop cachePrefix now (i + 1) (removeItem key ls) (cleaned + 1)
                   else cleanCache_loop cachePrefix now (i + 1) ls cleaned)
            else cleanCache_loop cachePrefix now (i + 1) ls cleaned)
      else (ls, cleaned))"
  by pat_completeness auto
termination
  by (relation "measure (\<lambda>(p, n, i, ls, c). length (items ls) - i)")
     (auto simp: removeItem_def intro: le_less_trans [OF diff_le_mono [OF length_delete_le]])

declare cleanCache_loop.simps [simp del]

definition cleanCache :: "string \<Rightarrow> int \<Rightarrow> local_storage \<Rightarrow> local_storage \<times> nat" where
  "cleanCache cachePrefix now ls = cleanCache_loop cachePrefix now 0 ls 0"

text \<open>
  \<open>clearOldestCacheEntries\<close> (lines 276-301): the entries under the prefix with their
  \<open>cachedAt\<close> number (0 when the value does not parse), sorted with the comparator
  \<open>(a, b) => a.cachedAt - b.cachedAt\<close>, and the first \<open>count\<close> of them removed.
  \<open>Array.prototype.sort\<close> is stable and takes a comparator result of \<open>NaN\<close> for 0, so an entry
  moves behind another only where the difference is a positive number. Where a \<open>NaN\<close> makes
  the comparator inconsistent the language leaves the order to the implementation; the
  model then has the order of a stable insertion sort.
\<close>

definition entry_cachedAt :: "stored \<Rightarrow> js_number" where
  "entry_cachedAt v = (case parsed v of Garbage \<Rightarrow> Number 0 | Entry e c p \<Rightarrow> c)"

definition sorts_after :: "js_number \<Rightarrow> js_number \<Rightarrow> bool" where
  "sorts_after a b = (case (a, b) of (Number x, Number y) \<Rightarrow> x - y > 0 | _ \<Rightarrow> False)"

fun insert_entry :: "string \<times> js_number \<Rightarrow> (string \<times> js_number) list \<Rightarrow> (string \<times> js_number) list" where
  "insert_entry x [] = [x]"
| "insert_entry x (y # ys) =
     (if sorts_after (snd x) (snd y) then y # insert_entry x ys else x # y # ys)"

definition sort_entries :: "(string \<times> js_number) list \<Rightarrow> (string \<times> js_number) list" where
  "sort_entries entries = foldr insert_entry entries []"

definition oldest_entries :: "string \<Rightarrow> nat \<Rightarrow> local_storage \<Rightarrow> (string \<times> js_number) list" where
  "oldest_entries cachePrefix count' ls =
     take count' (sort_entries
       (map (\<lambda>kv. (fst kv, entry_cachedAt (snd kv)))
          (filter (\<lambda>kv. startsWith (fst kv) cachePrefix) (items ls))))"

definition clearOldestCacheEntries :: "string \<Rightarrow> nat \<Rightarrow> local_storage \<Rightarrow> local_storage" where
  "clearOldestCacheEntries cachePrefix count' ls =
     fold (\<lambda>entry. removeItem (fst entry)) (oldest_entries cachePrefix count' ls) ls"

text \<open>
  \<open>manageCacheSize\<close> (lines 306-321) with its default \<open>maxSizeMB = 50\<close>; \<open>maxSizeBytes * 0.8\<close>
  is 41943040.
\<close>

definition manageCacheSize :: "string \<Rightarrow> local_storage \<Rightarrow> local_storage" where
  "manageCacheSize cachePrefix ls =
     (let maxSizeBytes = 50 * 1024 * 1024;
          totalSize = int (storage_size (items ls))
      in if totalSize > maxSizeBytes then
           (let toClear = \<lceil>(real_of_int totalSize - 41943040) / (1024 * 1024)\<rceil>;
                entriesToClear = max 50 (toClear * 10)
            in clearOldestCacheEntries cachePrefix (nat entriesToClear) ls)
         else ls)"

text \<open>
  \<open>hashString\<close> (lines 644-652): \<open>hash = ((hash << 5) - hash) + char; hash = hash & hash\<close> on
  32-bit integers, then \<open>Math.abs(hash).toString(16).padStart(8, '0')\<close>.
\<close>

definition hex_digit :: "nat \<Rightarrow> char" where
  "hex_digit d = (if d < 10 then char_of (48 + d) else char_of (87 + d))"

fun toString16 :: "nat \<Rightarrow> string" where
  "toString16 n = (if n < 16 then [hex_digit n] else toString16 (n div 16) @ [hex_digit (n mod 16)])"

declare toString16.simps [simp del]

definition hashString :: "string \<Rightarrow> string" where
  "hashString str =
     (let hash = fold (\<lambda>c h. (push_bit 5 h - h) + of_nat (of_char c)) str (0 :: 32 word)
      in padStart 8 (CHR ''0'') (toString16 (nat \<bar>sint hash\<bar>)))"

text \<open>
  \<open>getCacheKey\<close> (lines 629-632). \<open>variables.sort()\<close> sorts the array it is given in place, in
  the lexicographic order of the strings' code units (the order of \<open>string\<close> here), and
  returns it: the function is modelled as returning the array's new content beside the key.
\<close>

definition join :: "string \<Rightarrow> string list \<Rightarrow> string" where
  "join sep xs = (case xs of [] \<Rightarrow> [] | x # ys \<Rightarrow> x @ concat (map (\<lambda>y. sep @ y) ys))"

definition getCacheKey :: "string \<Rightarrow> string \<Rightarrow> string list \<Rightarrow> string list \<times> string" where
  "getCacheKey cachePrefix z variables =
     (sort variables,
      cachePrefix @ z @ ''_'' @ hashString (join '','' (sort variables)))"

text \<open>
  \<open>getFromCache\<close> (lines 169-189): the array's new content, the storage (an expired entry
  is removed) and the cached payload, \<open>None\<close> for \<open>null\<close>.
\<close>

definition getFromCache ::
  "string \<Rightarrow> int \<Rightarrow> string \<Rightarrow> string list \<Rightarrow> local_storage \<Rightarrow> string list \<times> local_storage \<times> string option" where
  "getFromCache cachePrefix now z variables ls =
     (case getCacheKey cachePrefix z variables of (variables', cacheKey) \<Rightarrow>
        (case map_of (items ls) cacheKey of
           None \<Rightarrow> (variables', ls, None)
         | Some v \<Rightarrow>
             (case parsed v of
                Garbage \<Rightarrow> (variables', ls, None)
              | Entry e c p \<Rightarrow>
                  (case e of
                     None \<Rightarrow> (variables', ls, Some p)
                   | Some t \<Rightarrow> if now > t then (variables', removeItem cacheKey ls, None)
                              else (variables', ls, Some p)))))"

text \<open>
  \<open>cacheData\<close> (lines 194-223), one invocation. \<open>data\<close> is the payload text and \<open>len\<close> the length
  of \<open>JSON.stringify(cacheEntry)\<close>; \<open>cachedAt\<close> is written as \<open>new Date().toISOString()\<close>, a date
  string. The whole body is a \<open>try\<close> block whose handler throws nothing, so the call always
  returns: the outcome says whether the entry was written, whether the handler has
  scheduled \<open>cacheData\<close> again with \<open>setTimeout(..., 0)\<close> after a \<open>QuotaExceededError\<close>, or whether
  another error was only logged. The scheduled call is a \<open>cacheData\<close> call with the same
  arguments, run after this one has returned.
\<close>

datatype cache_outcome = Written | RetryScheduled | Logged

definition cacheData ::
  "string \<Rightarrow> int \<Rightarrow> string \<Rightarrow> string list \<Rightarrow> string \<Rightarrow> nat \<Rightarrow> local_storage \<Rightarrow>
   string list \<times> local_storage \<times> cache_outcome" where
  "cacheData cachePrefix now z variables data len ls =
     (case getCacheKey cachePrefix z variables of (variables', cacheKey) \<Rightarrow>
        (let expiry = now + cacheDuration;
             cacheEntry = Stored len (Entry (Some expiry) (Number now) data)
         in case setItem cacheKey cacheEntry ls of
              Inr ls' \<Rightarrow> (variables', manageCacheSize cachePrefix ls', Written)
            | Inl error \<Rightarrow>
                if error_name error = ''QuotaExceededError''
                then (variables', clearOldestCacheEntries cachePrefix 20 ls, RetryScheduled)
                else (variables', ls, Logged)))"

text \<open>The instant that a \<open>cachedAt\<close> number stands for when it is not \<open>NaN\<close>.\<close>

definition instant_of :: "js_number \<Rightarrow> int" where
  "instant_of a = (case a of Number t \<Rightarrow> t | NaN \<Rightarrow> 0)"

section \<open>The rate limiter\<close>

text \<open>
  Instants are whole milliseconds. \<open>enforceRateLimit\<close> (acsApiService.js, lines 555-574)
  reads \<open>Date.now()\<close>, prunes \<open>this.requestTimestamps\<close> and either returns or sleeps and calls
  itself again; the model takes the reading \<open>now\<close> as an argument, lets the clock stand at
  \<open>now + waitTime\<close> when the sleep is over, and returns the instant of the return with the
  pruned list. With an empty list at the limit (a ceiling below 1) \<open>oldest\<close> is \<open>undefined\<close>
  and \<open>waitTime\<close> is \<open>NaN\<close>: the timer fires at once and the function calls itself for ever,
  which is the value \<open>None\<close>.
\<close>

partial_function (option) enforceRateLimit :: "int \<Rightarrow> int \<Rightarrow> int list \<Rightarrow> (int \<times> int list) option" where
  "enforceRateLimit requestsPerMinute now requestTimestamps =
     (let oneMinuteAgo = now - 60000;
          timestamps = filter (\<lambda>ts. ts > oneMinuteAgo) requestTimestamps
      in if int (length timestamps) \<ge> requestsPerMinute then
           (case timestamps of
              [] \<Rightarrow> enforceRateLimit requestsPerMinute now timestamps
            | oldest # rest \<Rightarrow>
                enforceRateLimit requestsPerMinute (now + (60000 - (now - oldest) + 100)) timestamps)
         else Some (now, timestamps))"

text \<open>
  \<open>cleanOldTimestamps\<close> (lines 579-582), and what \<open>fetchBatchFromAPI\<close> (lines 412-483) does to
  the list: it pushes \<open>startTime\<close>, which is a reading of \<open>performance.now()\<close> (milliseconds
  since the page was opened), and in its \<open>finally\<close> block prunes against \<open>Date.now()\<close>
  (milliseconds since 1970).
\<close>

definition cleanOldTimestamps :: "int \<Rightarrow> int list \<Rightarrow> int list" where
  "cleanOldTimestamps now requestTimestamps = filter (\<lambda>ts. ts > now - 60000) requestTimestamps"

definition fetchBatchFromAPI_timestamps :: "int \<Rightarrow> int \<Rightarrow> int list \<Rightarrow> int list" where
  "fetchBatchFromAPI_timestamps startTime finallyNow requestTimestamps =
     cleanOldTimestamps finallyNow (requestTimestamps @ [startTime])"

section \<open>The fetch service\<close>

text \<open>
  \<open>chunkArray\<close> (lines 663-669): \<open>None\<close> when the loop cannot end (\<open>size\<close> 0 on a non-empty
  array).
\<close>

function chunks :: "'a list \<Rightarrow> nat \<Rightarrow> 'a list list" where
  "chunks array size' =
     (if size' = 0 \<or> array = [] then [] else take size' array # chunks (drop size' array) size')"
  by pat_completeness auto
termination
  by (relation "measure (\<lambda>(array, n). length array)") auto

declare chunks.simps [simp del]

definition chunkArray :: "'a list \<Rightarrow> nat \<Rightarrow> 'a list list option" where
  "chunkArray array size' =
     (if array = [] then Some [] else if size' = 0 then None else Some (chunks array size'))"

text \<open>
  \<open>fetchDataForZips\<close> (lines 62-152) for a \<open>variables\<close> argument that is an array, whose
  content the model threads through the calls that receive the array. The provider is
  \<open>net\<close>: \<open>net batch a\<close> is the outcome of attempt \<open>a\<close> for a batch, on success the entries of
  the parsed response in the order of \<open>Object.entries\<close>, each with its ZIP, its data and the
  length of the cache entry that \<open>cacheData\<close> serialises for it. \<open>logError\<close>, which appends to
  the error log kept in \<open>localStorage\<close>, is a parameter; statistics and events are left out.
  The result carries the array's final content, the storage and the returned object or
  the error thrown; \<open>None\<close> when the call does not return.
\<close>

type_synonym fetch_state = "string list \<times> local_storage \<times> (string \<times> string) list"

definition check_zip ::
  "string \<Rightarrow> int \<Rightarrow> string \<Rightarrow> fetch_state \<times> string list \<Rightarrow> fetch_state \<times> string list" where
  "check_zip cachePrefix now z st =
     (case st of ((variables, ls, results), missingZips) \<Rightarrow>
        (case getFromCache cachePrefix now z variables ls of
           (variables', ls', cached) \<Rightarrow>
             (case cached of
                Some c \<Rightarrow> ((variables', ls', AList.update z c results), missingZips)
              | None \<Rightarrow> ((variables', ls', results), missingZips @ [z]))))"

definition store_fetched ::
  "string \<Rightarrow> int \<Rightarrow> string \<times> string \<times> nat \<Rightarrow> fetch_state \<Rightarrow> fetch_state" where
  "store_fetched cachePrefix now entry st =
     (case st of (variables, ls, results) \<Rightarrow>
        (case entry of (z, data, len) \<Rightarrow>
           (case cacheData cachePrefix now z variables data len ls of
              (variables', ls', outcome) \<Rightarrow> (variables', ls', AList.update z data results))))"

definition process_batch ::
  "string \<Rightarrow> int \<Rightarrow> (string \<Rightarrow> js_error \<Rightarrow> local_storage \<Rightarrow> local_storage) \<Rightarrow>
   js_error + (string \<times> string \<times> nat) list \<Rightarrow> fetch_state \<Rightarrow> fetch_state" where
  "process_batch cachePrefix now logError result st =
     (case result of
        Inr entries \<Rightarrow> fold (store_fetched cachePrefix now) entries st
      | Inl reason \<Rightarrow>
          (case st of (variables, ls, results) \<Rightarrow>
             (variables, logError ''Batch fetch failed'' reason ls, results)))"

definition replay_log ::
  "(string \<Rightarrow> js_error \<Rightarrow> local_storage \<Rightarrow> local_storage) \<Rightarrow> event list \<Rightarrow> local_storage \<Rightarrow> local_storage" where
  "replay_log logError tr ls =
     fold (\<lambda>ev s. case ev of LogError m e \<Rightarrow> logError m e s | _ \<Rightarrow> s) tr ls"

definition fetchDataForZips ::
  "string \<Rightarrow> nat \<Rightarrow> int \<Rightarrow> (string \<Rightarrow> js_error \<Rightarrow> local_storage \<Rightarrow> local_storage) \<Rightarrow>
   (string list \<Rightarrow> int \<Rightarrow> js_error + (string \<times> string \<times> nat) list) \<Rightarrow> int \<Rightarrow>
   string list \<Rightarrow> string list \<Rightarrow> local_storage \<Rightarrow>
   (string list \<times> local_storage \<times> (js_error + (string \<times> string) list)) option" where
  "fetchDataForZips cachePrefix batchSize maxRetries logError net now zipCodes variables ls =
     (if zipCodes = [] then
        Some (variables,
              logError ''Failed to fetch data for request'' (Error ''Error'' ''No ZIP codes provided'') ls,
              Inl (Error ''Error'' ''No ZIP codes provided''))
      else if variables = [] then
        Some (variables,
              logError ''Failed to fetch data for request'' (Error ''Error'' ''No variables specified'') ls,
              Inl (Error ''Error'' ''No variables specified''))
      else
        (case fold (check_zip cachePrefix now) zipCodes ((variables, ls, []), []) of
           ((variables1, ls1, results1), missingZips) \<Rightarrow>
             (case chunkArray missingZips batchSize of
                None \<Rightarrow> None
              | Some batches \<Rightarrow>
                  (let attempts = map (\<lambda>batch. fetchBatchWithRetry maxRetries (net batch)) batches;
                       ls2 = fold (\<lambda>r. replay_log logError (snd r)) attempts ls1
                   in case fold (process_batch cachePrefix now logError) (map fst attempts)
                             (variables1, ls2, results1) of
                        (variables3, ls3, results3) \<Rightarrow> Some (variables3, ls3, Inr results3)))))"

section \<open>Properties of the retry controllers\<close>

lemma invoked_append: "invoked (xs @ ys) = invoked xs @ invoked ys"
  by (induction xs rule: invoked.induct) auto

lemma loop_trace_sleep:
  "fetchBatchWithRetry_loop m f i l = (r, tr) \<Longrightarrow> 2 \<le> a \<Longrightarrow> Invoke a \<in> set tr \<Longrightarrow>
   \<exists>pre post. tr = pre @ [Sleep ((2 ^ nat (a - 1) * 1000)), Invoke a] @ post"
proof (induction m f i l arbitrary: r tr rule: fetchBatchWithRetry_loop.induct)
  case (1 m f i l)
  show ?case
  proof (cases "i \<le> m")
    case False
    with "1.prems" show ?thesis
      by (simp add: fetchBatchWithRetry_loop.simps [of m f i l] split: option.splits)
  next
    case le: True
    define w where "w = (if i > 1 then [Sleep ((2 ^ nat (i - 1) * 1000))] else [])"
    have here: "a = i \<Longrightarrow> w @ Invoke i # ys = [] @ [Sleep ((2 ^ nat (a - 1) * 1000)), Invoke a] @ ys" for ys
      using \<open>2 \<le> a\<close> by (simp add: w_def)
    show ?thesis
    proof (cases "f i")
      case (Inr v)
      with le "1.prems" have tr: "tr = w @ Invoke i # []"
        by (simp add: fetchBatchWithRetry_loop.simps [of m f i l] w_def)
      with "1.prems" have "a = i" by (auto simp: w_def split: if_splits)
      with tr here [of "[]"] show ?thesis by blast
    next
      case (Inl e)
      show ?thesis
      proof (cases "i = m")
        case True
        with Inl le "1.prems"
        have tr: "tr = w @ Invoke i # [Warn i m e, LogError ''Max retries exceeded for batch'' e]"
          by (auto simp: fetchBatchWithRetry_loop.simps [of m f m l] w_def)
        with "1.prems" have "a = i" by (auto simp: w_def split: if_splits)
        with tr here show ?thesis by blast
      next
        case False
        obtain r' tr' where rec: "fetchBatchWithRetry_loop m f (i + 1) (Some e) = (r', tr')"
          by (cases "fetchBatchWithRetry_loop m f (i + 1) (Some e)")
        with Inl le False "1.prems" have tr: "tr = w @ Invoke i # Warn i m e # tr'"
          by (simp add: fetchBatchWithRetry_loop.simps [of m f i l] w_def)
        show ?thesis
        proof (cases "a = i")
          case True
          with tr here show ?thesis by blast
        next
          case ne: False
          with tr "1.prems" have "Invoke a \<in> set tr'" by (auto simp: w_def split: if_splits)
          from "1.IH" [OF le refl Inl False rec \<open>2 \<le> a\<close> this]
          obtain pre post where "tr' = pre @ [Sleep ((2 ^ nat (a - 1) * 1000)), Invoke a] @ post" by blast
          with tr have "tr = (w @ Invoke i # Warn i m e # pre) @ [Sleep ((2 ^ nat (a - 1) * 1000)), Invoke a] @ post"
            by simp
          then show ?thesis by blast
        qed
      qed
    qed
  qed
qed

lemma loop_starts_with_call:
  "i \<le> m \<Longrightarrow> i \<le> 1 \<Longrightarrow> \<exists>post. snd (fetchBatchWithRetry_loop m f i l) = Invoke i # post"
  by (simp add: fetchBatchWithRetry_loop.simps [of m f i l] split: sum.splits prod.splits)

lemma fwr_starts_with_call:
  "i \<le> m \<Longrightarrow> \<exists>post. snd (fetchWithRetry_loop m f i) = Invoke i # post"
  by (simp add: fetchWithRetry_loop.simps [of m f i] split: sum.splits prod.splits)

lemma fwr_trace_sleep:
  "fetchWithRetry_loop m f i = (r, tr) \<Longrightarrow> a \<noteq> i \<Longrightarrow> Invoke a \<in> set tr \<Longrightarrow>
   \<exists>pre post. tr = pre @ [Sleep (min (1000 * 2 ^ nat (a - 1)) 10000), Invoke a] @ post"
proof (induction m f i arbitrary: r tr rule: fetchWithRetry_loop.induct)
  case (1 m f i)
  show ?case
  proof (cases "i \<le> m")
    case False
    with "1.prems" show ?thesis
      by (simp add: fetchWithRetry_loop.simps [of m f i])
  next
    case le: True
    show ?thesis
    proof (cases "f i")
      case (Inr v)
      with le "1.prems" show ?thesis
        by (auto simp: fetchWithRetry_loop.simps [of m f i])
    next
      case (Inl e)
      show ?thesis
      proof (cases "i = m")
        case True
        with Inl le "1.prems" show ?thesis
          by (auto simp: fetchWithRetry_loop.simps [of m f m])
      next
        case False
        obtain r' tr' where rec: "fetchWithRetry_loop m f (i + 1) = (r', tr')"
          by (cases "fetchWithRetry_loop m f (i + 1)")
        let ?s = "Sleep (min (1000 * 2 ^ nat i) 10000)"
        from rec Inl le False "1.prems" have tr: "tr = Invoke i # Warn i m e # ?s # tr'"
          by (simp add: fetchWithRetry_loop.simps [of m f i])
        from le False fwr_starts_with_call [of "i + 1" m f] rec
        obtain post' where tr': "tr' = Invoke (i + 1) # post'" by auto
        show ?thesis
        proof (cases "a = i + 1")
          case True
          then have "nat (a - 1) = nat i" by simp
          with tr tr' True
          have "tr = [Invoke i, Warn i m e] @ [Sleep (min (1000 * 2 ^ nat (a - 1)) 10000), Invoke a] @ post'"
            by simp
          then show ?thesis by blast
        next
          case ne: False
          from tr "1.prems" have "Invoke a \<in> set tr'" by auto
          from "1.IH" [OF le Inl False rec ne this]
          obtain pre post where "tr' = pre @ [Sleep (min (1000 * 2 ^ nat (a - 1)) 10000), Invoke a] @ post"
            by blast
          with tr have "tr = (Invoke i # Warn i m e # ?s # pre) @
              [Sleep (min (1000 * 2 ^ nat (a - 1)) 10000), Invoke a] @ post"
            by simp
          then show ?thesis by blast
        qed
      qed
    qed
  qed
qed

lemma loop_count: "length (invoked (snd (fetchBatchWithRetry_loop m f i l))) \<le> nat (m + 1 - i)"
proof (induction m f i l rule: fetchBatchWithRetry_loop.induct)
  case (1 m f i l)
  show ?case
  proof (cases "i \<le> m")
    case False
    then show ?thesis
      by (simp add: fetchBatchWithRetry_loop.simps [of m f i l] split: option.splits)
  next
    case le: True
    show ?thesis
    proof (cases "f i")
      case (Inr v)
      with le show ?thesis
        by (simp add: fetchBatchWithRetry_loop.simps [of m f i l] invoked_append)
    next
      case (Inl e)
      show ?thesis
      proof (cases "i = m")
        case True
        with Inl show ?thesis
          by (simp add: fetchBatchWithRetry_loop.simps [of m f m l] invoked_append)
      next
        case False
        from "1.IH" [OF le refl Inl False] Inl le False show ?thesis
          by (auto simp: fetchBatchWithRetry_loop.simps [of m f i l] invoked_append split: prod.splits)
      qed
    qed
  qed
qed

lemma loop_success:
  "i \<le> k \<Longrightarrow> k \<le> m \<Longrightarrow> (\<forall>j. i \<le> j \<and> j < k \<longrightarrow> isl (f j)) \<Longrightarrow> f k = Inr v \<Longrightarrow>
   fst (fetchBatchWithRetry_loop m f i l) = Inr v \<and>
   invoked (snd (fetchBatchWithRetry_loop m f i l)) = [i..k]"
proof (induction m f i l rule: fetchBatchWithRetry_loop.induct)
  case (1 m f i l)
  from "1.prems" have le: "i \<le> m" by simp
  show ?case
  proof (cases "i = k")
    case True
    with "1.prems" le show ?thesis
      by (simp add: fetchBatchWithRetry_loop.simps [of m f k l] invoked_append)
  next
    case False
    with "1.prems" have lt: "i < k" and nm: "i \<noteq> m" by auto
    with "1.prems" obtain e where Inl: "f i = Inl e" by (cases "f i") auto
    have "fst (fetchBatchWithRetry_loop m f (i + 1) (Some e)) = Inr v \<and>
          invoked (snd (fetchBatchWithRetry_loop m f (i + 1) (Some e))) = [i + 1..k]"
      using "1.IH" [OF le refl Inl nm] lt "1.prems" by simp
    with Inl le nm lt show ?thesis
      by (auto simp: fetchBatchWithRetry_loop.simps [of m f i l] invoked_append upto.simps [of i k]
               split: prod.splits)
  qed
qed

lemma loop_all_fail:
  "i \<le> m \<Longrightarrow> (\<forall>j. i \<le> j \<and> j \<le> m \<longrightarrow> isl (f j)) \<Longrightarrow>
   fst (fetchBatchWithRetry_loop m f i l) = f m \<and>
   invoked (snd (fetchBatchWithRetry_loop m f i l)) = [i..m]"
proof (induction m f i l rule: fetchBatchWithRetry_loop.induct)
  case (1 m f i l)
  from "1.prems" obtain e where Inl: "f i = Inl e" by (cases "f i") auto
  show ?case
  proof (cases "i = m")
    case True
    with Inl show ?thesis
      by (simp add: fetchBatchWithRetry_loop.simps [of m f m l] invoked_append)
  next
    case False
    with "1.prems" have lt: "i < m" by simp
    have "fst (fetchBatchWithRetry_loop m f (i + 1) (Some e)) = f m \<and>
          invoked (snd (fetchBatchWithRetry_loop m f (i + 1) (Some e))) = [i + 1..m]"
      using "1.IH" [OF "1.prems"(1) refl Inl False] lt "1.prems" by simp
    with Inl lt False show ?thesis
      by (auto simp: fetchBatchWithRetry_loop.simps [of m f i l] invoked_append upto.simps [of i m]
               split: prod.splits)
  qed
qed

lemma invoked_mem: "a \<in> set (invoked tr) \<longleftrightarrow> Invoke a \<in> set tr"
  by (induction tr rule: invoked.induct) auto

lemma loop_reaches:
  "i \<le> a \<Longrightarrow> a \<le> m \<Longrightarrow> (\<forall>j. i \<le> j \<and> j < a \<longrightarrow> isl (f j)) \<Longrightarrow>
   Invoke a \<in> set (snd (fetchBatchWithRetry_loop m f i l))"
proof (induction m f i l rule: fetchBatchWithRetry_loop.induct)
  case (1 m f i l)
  from "1.prems" have le: "i \<le> m" by simp
  show ?case
  proof (cases "i = a")
    case True
    with "1.prems" show ?thesis
      by (simp add: fetchBatchWithRetry_loop.simps [of m f a l] split: sum.splits prod.splits)
  next
    case False
    with "1.prems" have lt: "i < a" and nm: "i \<noteq> m" by auto
    with "1.prems" obtain e where Inl: "f i = Inl e" by (cases "f i") auto
    have "Invoke a \<in> set (snd (fetchBatchWithRetry_loop m f (i + 1) (Some e)))"
      using "1.IH" [OF le refl Inl nm] lt "1.prems" by simp
    with Inl le nm show ?thesis
      by (auto simp: fetchBatchWithRetry_loop.simps [of m f i l] split: prod.splits)
  qed
qed

lemma fwr_reaches:
  "i \<le> a \<Longrightarrow> a \<le> m \<Longrightarrow> (\<forall>j. i \<le> j \<and> j < a \<longrightarrow> isl (f j)) \<Longrightarrow>
   Invoke a \<in> set (snd (fetchWithRetry_loop m f i))"
proof (induction m f i rule: fetchWithRetry_loop.induct)
  case (1 m f i)
  from "1.prems" have le: "i \<le> m" by simp
  show ?case
  proof (cases "i = a")
    case True
    with "1.prems" show ?thesis
      by (simp add: fetchWithRetry_loop.simps [of m f a] split: sum.splits prod.splits)
  next
    case False
    with "1.prems" have lt: "i < a" and nm: "i \<noteq> m" by auto
    with "1.prems" obtain e where Inl: "f i = Inl e" by (cases "f i") auto
    have "Invoke a \<in> set (snd (fetchWithRetry_loop m f (i + 1)))"
      using "1.IH" [OF le Inl nm] lt "1.prems" by simp
    with Inl le nm show ?thesis
      by (auto simp: fetchWithRetry_loop.simps [of m f i] split: prod.splits)
  qed
qed

text \<open>
  Claim C3, as amended. Before retry attempt \<open>a\<close> (\<open>2 \<le> a \<le> maxRetries\<close>, reached because the
  attempts before it failed) \<open>fetchBatchWithRetry\<close> suspends for exactly \<open>1000 * 2^(a-1)\<close>
  milliseconds, with no cap, immediately before it invokes the operation, and
  \<open>fetchWithRetry\<close> suspends for exactly \<open>min 10000 (1000 * 2^(a-1))\<close>; neither suspends before
  the first attempt.
\<close>

theorem backoff_before_retry:
  "(2 \<le> a \<and> a \<le> m \<and> (\<forall>j. 1 \<le> j \<and> j < a \<longrightarrow> isl (f j)) \<longrightarrow>
      (\<exists>pre post. snd (fetchBatchWithRetry m f) =
          pre @ [Sleep (1000 * 2 ^ nat (a - 1)), Invoke a] @ post))
   \<and> (1 \<le> m \<longrightarrow> (\<exists>post. snd (fetchBatchWithRetry m f) = Invoke 1 # post))
   \<and> (2 \<le> a \<and> a \<le> m \<and> (\<forall>j. 1 \<le> j \<and> j < a \<longrightarrow> isl (g j)) \<longrightarrow>
      (\<exists>pre post. snd (fetchWithRetry m g) =
          pre @ [Sleep (min 10000 (1000 * 2 ^ nat (a - 1))), Invoke a] @ post))
   \<and> (1 \<le> m \<longrightarrow> (\<exists>post. snd (fetchWithRetry m g) = Invoke 1 # post))"
proof (intro conjI impI)
  assume h: "2 \<le> a \<and> a \<le> m \<and> (\<forall>j. 1 \<le> j \<and> j < a \<longrightarrow> isl (f j))"
  then have "Invoke a \<in> set (snd (fetchBatchWithRetry_loop m f 1 None))"
    by (intro loop_reaches) auto
  with h loop_trace_sleep [of m f 1 None _ _ a]
  show "\<exists>pre post. snd (fetchBatchWithRetry m f) =
          pre @ [Sleep (1000 * 2 ^ nat (a - 1)), Invoke a] @ post"
    unfolding fetchBatchWithRetry_def
    by (cases "fetchBatchWithRetry_loop m f 1 None") (simp add: mult.commute)
next
  assume "1 \<le> m"
  then show "\<exists>post. snd (fetchBatchWithRetry m f) = Invoke 1 # post"
    unfolding fetchBatchWithRetry_def by (intro loop_starts_with_call) auto
next
  assume h: "2 \<le> a \<and> a \<le> m \<and> (\<forall>j. 1 \<le> j \<and> j < a \<longrightarrow> isl (g j))"
  then have "Invoke a \<in> set (snd (fetchWithRetry_loop m g 1))"
    by (intro fwr_reaches) auto
  with h fwr_trace_sleep [of m g 1 _ _ a]
  show "\<exists>pre post. snd (fetchWithRetry m g) =
          pre @ [Sleep (min 10000 (1000 * 2 ^ nat (a - 1))), Invoke a] @ post"
    unfolding fetchWithRetry_def
    by (cases "fetchWithRetry_loop m g 1") (simp add: min.commute)
next
  assume "1 \<le> m"
  then show "\<exists>post. snd (fetchWithRetry m g) = Invoke 1 # post"
    unfolding fetchWithRetry_def by (intro fwr_starts_with_call) auto
qed

theorem backoff_before_retry_witness:
  "(\<exists>pre post. snd (fetchBatchWithRetry 3
        (\<lambda>k. if k < 3 then Inl (Error ''Error'' ''HTTP 500: '') else Inr ())) =
      pre @ [Sleep 4000, Invoke 3] @ post)
   \<and> (\<exists>pre post. snd (fetchWithRetry 3
        (\<lambda>k. if k < 3 then Inl (Error ''Error'' ''Income API failed: 500 '') else Inr ())) =
      pre @ [Sleep 4000, Invoke 3] @ post)"
  using backoff_before_retry [of 3 3
      "\<lambda>k. if k < 3 then Inl (Error ''Error'' ''HTTP 500: '') else Inr ()"
      "\<lambda>k. if k < 3 then Inl (Error ''Error'' ''Income API failed: 500 '') else Inr ()"]
  by simp

text \<open>
  Claim C3 as stated fails for \<open>fetchBatchWithRetry\<close>: it has no cap. With \<open>maxRetries = 6\<close>
  and five failures the suspension before attempt 6 is 32000 ms, which is neither
  \<open>min timeout (1000 * 2^5)\<close> for the service's own time bound (30000) nor for the cap of
  the sibling controller (10000).
\<close>

theorem backoff_cap_counterexample:
  "snd (fetchBatchWithRetry 6 (\<lambda>k. if k < 6 then Inl (Error ''Error'' ''x'') else Inr ())) =
     [Invoke 1, Warn 1 6 (Error ''Error'' ''x''),
      Sleep 2000, Invoke 2, Warn 2 6 (Error ''Error'' ''x''),
      Sleep 4000, Invoke 3, Warn 3 6 (Error ''Error'' ''x''),
      Sleep 8000, Invoke 4, Warn 4 6 (Error ''Error'' ''x''),
      Sleep 16000, Invoke 5, Warn 5 6 (Error ''Error'' ''x''),
      Sleep 32000, Invoke 6]
   \<and> (32000 :: int) \<noteq> min default_timeout (1000 * 2 ^ nat (6 - 1))
   \<and> (32000 :: int) \<noteq> min 10000 (1000 * 2 ^ nat (6 - 1))"
  by (simp add: fetchBatchWithRetry_def fetchBatchWithRetry_loop.simps default_timeout_def)

text \<open>
  Claim C6, as amended. \<open>fetchBatchWithRetry\<close> invokes the operation at most \<open>maxRetries\<close>
  times; it returns the value of the first successful invocation, having invoked attempts
  \<open>1..k\<close> and no more; if all \<open>maxRetries\<close> invocations fail it throws the last failure itself,
  unchanged; an operation that fails \<open>maxRetries - 1\<close> times and then succeeds yields the
  success value after exactly \<open>maxRetries\<close> invocations.
\<close>

theorem retry_first_success_or_last_failure:
  "length (invoked (snd (fetchBatchWithRetry m f))) \<le> nat m
   \<and> (1 \<le> k \<and> k \<le> m \<and> (\<forall>j. 1 \<le> j \<and> j < k \<longrightarrow> isl (f j)) \<and> f k = Inr v \<longrightarrow>
        fst (fetchBatchWithRetry m f) = Inr v \<and> invoked (snd (fetchBatchWithRetry m f)) = [1..k])
   \<and> (1 \<le> m \<and> (\<forall>j. 1 \<le> j \<and> j \<le> m \<longrightarrow> isl (f j)) \<longrightarrow>
        fst (fetchBatchWithRetry m f) = f m \<and> invoked (snd (fetchBatchWithRetry m f)) = [1..m])
   \<and> (1 \<le> m \<and> (\<forall>j. 1 \<le> j \<and> j < m \<longrightarrow> isl (f j)) \<and> f m = Inr v \<longrightarrow>
        fst (fetchBatchWithRetry m f) = Inr v \<and>
        length (invoked (snd (fetchBatchWithRetry m f))) = nat m)"
proof -
  have count: "length (invoked (snd (fetchBatchWithRetry m f))) \<le> nat m"
    using loop_count [of m f 1 None] by (simp add: fetchBatchWithRetry_def)
  have success: "fst (fetchBatchWithRetry m f) = Inr v \<and>
      invoked (snd (fetchBatchWithRetry m f)) = [1..k']"
    if "1 \<le> k' \<and> k' \<le> m \<and> (\<forall>j. 1 \<le> j \<and> j < k' \<longrightarrow> isl (f j)) \<and> f k' = Inr v" for k'
    using that unfolding fetchBatchWithRetry_def by (intro loop_success) auto
  have failure: "fst (fetchBatchWithRetry m f) = f m \<and>
      invoked (snd (fetchBatchWithRetry m f)) = [1..m]"
    if "1 \<le> m \<and> (\<forall>j. 1 \<le> j \<and> j \<le> m \<longrightarrow> isl (f j))"
    using that unfolding fetchBatchWithRetry_def by (intro loop_all_fail) auto
  have last: "fst (fetchBatchWithRetry m f) = Inr v \<and>
      length (invoked (snd (fetchBatchWithRetry m f))) = nat m"
    if "1 \<le> m \<and> (\<forall>j. 1 \<le> j \<and> j < m \<longrightarrow> isl (f j)) \<and> f m = Inr v"
    using success [of m] that by simp
  from count success [of k] failure last show ?thesis
    by blast
qed

theorem retry_first_success_or_last_failure_witness:
  "fst (fetchBatchWithRetry 3 (\<lambda>k. if k < 3 then Inl (Error ''Error'' ''x'') else Inr (42 :: int)))
     = Inr 42
   \<and> length (invoked (snd (fetchBatchWithRetry 3
        (\<lambda>k. if k < 3 then Inl (Error ''Error'' ''x'') else Inr (42 :: int))))) = 3
   \<and> fst (fetchBatchWithRetry 2
        ((\<lambda>k. Inl (Error ''Error'' (if k = 1 then ''first'' else ''last'')))
           :: int \<Rightarrow> js_error + int)) = Inl (Error ''Error'' ''last'')"
  using retry_first_success_or_last_failure [of 3
      "\<lambda>k. if k < 3 then Inl (Error ''Error'' ''x'') else Inr (42 :: int)" 3 42]
    retry_first_success_or_last_failure [of 2
      "\<lambda>k. Inl (Error ''Error'' (if k = 1 then ''first'' else ''last''))" 1 0]
  by auto

text \<open>
  Claim C6 as stated fails in one point: the failure that is propagated carries no attempt
  count. The value thrown after the last attempt is the error of that attempt as it was
  raised; the attempt count appears only in the console warnings.
\<close>

theorem retry_annotation_counterexample:
  "fetchBatchWithRetry 2 (\<lambda>k. Inl (Error ''Error'' ''HTTP 500: '') :: js_error + unit) =
     (Inl (Error ''Error'' ''HTTP 500: ''),
      [Invoke 1, Warn 1 2 (Error ''Error'' ''HTTP 500: ''),
       Sleep 2000, Invoke 2, Warn 2 2 (Error ''Error'' ''HTTP 500: ''),
       LogError ''Max retries exceeded for batch'' (Error ''Error'' ''HTTP 500: '')])"
  by (simp add: fetchBatchWithRetry_def fetchBatchWithRetry_loop.simps)

section \<open>Properties of the ZIP code index\<close>

lemma searchByRadius_unfold:
  "searchByRadius idx la lo r limit =
     searchByRadius_scan idx la lo r limit (search_box la lo r) (search_cells idx la lo r) []"
  by (simp add: searchByRadius_def search_box_def search_cells_def Let_def)

lemma scan_sorted:
  "sorted (map distance (searchByRadius_scan idx la lo r limit box cells results))"
proof -
  obtain minLat maxLat minLng maxLng where box: "box = (minLat, maxLat, minLng, maxLng)"
    by (cases box) auto
  show ?thesis unfolding box
    by (induction cells arbitrary: results) (auto simp: Let_def)
qed

lemma scan_subset:
  "set (searchByRadius_scan idx la lo r limit box cells results) \<subseteq>
     set results \<union> set (matches idx la lo r box cells)"
proof (induction cells arbitrary: results)
  case Nil
  then show ?case by simp
next
  case (Cons cell cells)
  obtain minLat maxLat minLng maxLng where box: "box = (minLat, maxLat, minLng, maxLng)"
    by (cases box) auto
  show ?case
    using Cons.IH [of results]
      Cons.IH [of "case get idx (stub_zip cell) of
          Some rcd \<Rightarrow> results @ [\<lparr>hit_record = rcd,
              distance = haversine la lo (stub_lat cell) (stub_lng cell)\<rparr>]
        | None \<Rightarrow> results"]
    unfolding box by (auto simp: Let_def split: option.splits)
qed

lemma scan_take:
  "int (length results) < limit \<Longrightarrow>
   searchByRadius_scan idx la lo r limit box cells results =
     sort_key distance (take (nat limit) (results @ matches idx la lo r box cells))"
proof (induction cells arbitrary: results)
  case Nil
  then show ?case by simp
next
  case (Cons cell cells)
  obtain minLat maxLat minLng maxLng where box: "box = (minLat, maxLat, minLng, maxLng)"
    by (cases box) auto
  show ?case
  proof (cases "in_box minLat maxLat minLng maxLng cell \<and>
                haversine la lo (stub_lat cell) (stub_lng cell) \<le> r")
    case False
    with Cons box show ?thesis by (auto simp: Let_def)
  next
    case True
    show ?thesis
    proof (cases "get idx (stub_zip cell)")
      case None
      with Cons box True show ?thesis by (auto simp: Let_def)
    next
      case (Some rcd)
      let ?h = "\<lparr>hit_record = rcd, distance = haversine la lo (stub_lat cell) (stub_lng cell)\<rparr>"
      show ?thesis
      proof (cases "int (length (results @ [?h])) \<ge> limit")
        case full: True
        with Cons.prems have "nat limit = length results + 1" by simp
        then have "take (nat limit) (results @ ?h # matches idx la lo r box cells) = results @ [?h]"
          by simp
        with box True Some full show ?thesis by (simp add: Let_def)
      next
        case more: False
        then have "int (length (results @ [?h])) < limit" by simp
        from Cons.IH [OF this] box True Some more show ?thesis by (simp add: Let_def)
      qed
    qed
  qed
qed

lemma matches_mem:
  "h \<in> set (matches idx la lo r (minLat, maxLat, minLng, maxLng) cells) \<Longrightarrow>
   \<exists>cell \<in> set cells. in_box minLat maxLat minLng maxLng cell \<and>
      distance h = haversine la lo (stub_lat cell) (stub_lng cell) \<and> distance h \<le> r \<and>
      get idx (stub_zip cell) = Some (hit_record h)"
  by (induction cells) (auto split: if_splits option.splits)

lemma matches_Nil:
  "\<forall>cell \<in> set cells. \<not> haversine la lo (stub_lat cell) (stub_lng cell) \<le> r \<Longrightarrow>
   matches idx la lo r box cells = []"
proof -
  assume none: "\<forall>cell \<in> set cells. \<not> haversine la lo (stub_lat cell) (stub_lng cell) \<le> r"
  obtain minLat maxLat minLng maxLng where box: "box = (minLat, maxLat, minLng, maxLng)"
    by (cases box) auto
  from none show ?thesis unfolding box
    by (induction cells) auto
qed

lemma get_five: "5 \<le> length z \<Longrightarrow> get idx z = map_of (zips idx) z"
  by (simp add: get_def padStart_def)

lemma zips_indexRecord: "zips (indexRecord r idx) = AList.update (zip_code r) r (zips idx)"
  by (simp add: indexRecord_def Let_def)

lemma spatialIndex_indexRecord: "spatialIndex (indexRecord r idx) = spatialIndex idx"
  by (simp add: indexRecord_def Let_def)

lemma stateIndex_indexRecord:
  "stateIndex (indexRecord r idx) =
     (if state_id r \<noteq> '''' then index_add (state_id r) (zip_code r) (stateIndex idx)
      else stateIndex idx)"
  by (simp add: indexRecord_def Let_def)

lemma spatialIndex_fold: "spatialIndex (fold indexRecord recs idx) = spatialIndex idx"
  by (induction recs arbitrary: idx) (simp_all add: spatialIndex_indexRecord)

lemma set_update_subset: "set (AList.update k v al) \<subseteq> insert (k, v) (set al)"
  by (induction al) auto

lemma zips_fold:
  "\<forall>x \<in> set recs. length (zip_code x) = 5 \<Longrightarrow> distinct (map fst (zips idx)) \<Longrightarrow>
   \<forall>(k, rcd) \<in> set (zips idx). zip_code rcd = k \<and> length k = 5 \<Longrightarrow>
   distinct (map fst (zips (fold indexRecord recs idx))) \<and>
   (\<forall>(k, rcd) \<in> set (zips (fold indexRecord recs idx)). zip_code rcd = k \<and> length k = 5)"
proof (induction recs arbitrary: idx)
  case Nil
  then show ?case by simp
next
  case (Cons r recs)
  have d: "distinct (map fst (zips (indexRecord r idx)))"
    using Cons.prems(2) by (simp add: zips_indexRecord distinct_update)
  have "\<forall>(k, rcd) \<in> set (zips (indexRecord r idx)). zip_code rcd = k \<and> length k = 5"
    using Cons.prems(1,3) set_update_subset [of "zip_code r" r "zips idx"]
    by (auto simp: zips_indexRecord)
  with Cons.IH [of "indexRecord r idx"] d Cons.prems(1) show ?case by simp
qed

lemma zips_keys_mono: "k \<in> fst ` set (zips idx) \<Longrightarrow> k \<in> fst ` set (zips (fold indexRecord recs idx))"
proof (induction recs arbitrary: idx)
  case Nil
  then show ?case by simp
next
  case (Cons r recs)
  from Cons.prems have "k \<in> fst ` set (zips (indexRecord r idx))"
    by (simp add: zips_indexRecord dom_update)
  from Cons.IH [OF this] show ?case by simp
qed

lemma cells_subset_stubs: "map_of sp k = Some cells \<Longrightarrow> set cells \<subseteq> set (all_stubs sp)"
  by (auto simp: all_stubs_def dest!: map_of_SomeD intro: bexI [of _ "(k, cells)"])

lemma cells_mem_stubs:
  "x \<in> set (case map_of sp k of None \<Rightarrow> [] | Some cells \<Rightarrow> cells) \<Longrightarrow> x \<in> set (all_stubs sp)"
  using cells_subset_stubs [of sp k] by (cases "map_of sp k") auto

lemma stubs_update: "set (all_stubs (AList.update k v sp)) \<subseteq> set v \<union> set (all_stubs sp)"
  using set_update_subset [of k v sp] by (fastforce simp: all_stubs_def)

lemma stubs_cell_push:
  "c \<in> set (all_stubs (cell_push e sp)) \<Longrightarrow>
   c \<in> set (all_stubs sp) \<or>
   (lat (snd e) = Some (stub_lat c) \<and> lng (snd e) = Some (stub_lng c) \<and> stub_zip c = fst e)"
proof (cases "lat (snd e)")
  case None
  assume "c \<in> set (all_stubs (cell_push e sp))"
  with None show ?thesis by (simp add: cell_push_def)
next
  case la: (Some la)
  assume c: "c \<in> set (all_stubs (cell_push e sp))"
  show ?thesis
  proof (cases "lng (snd e)")
    case None
    with c la show ?thesis by (simp add: cell_push_def)
  next
    case (Some lo)
    let ?k = "getGridKey la lo GRID_SIZE"
    let ?old = "case map_of sp ?k of None \<Rightarrow> [] | Some cells \<Rightarrow> cells"
    from c la Some have "c \<in> set (all_stubs (AList.update ?k (?old @ [Stub (fst e) la lo]) sp))"
      by (simp add: cell_push_def Let_def)
    with stubs_update have "c \<in> set (?old @ [Stub (fst e) la lo]) \<union> set (all_stubs sp)"
      by blast
    moreover have "set ?old \<subseteq> set (all_stubs sp)"
      using cells_mem_stubs [of _ sp ?k] by blast
    ultimately show ?thesis using la Some by auto
  qed
qed

lemma stubs_fold:
  "c \<in> set (all_stubs (fold cell_push Z sp)) \<Longrightarrow>
   c \<in> set (all_stubs sp) \<or>
   (\<exists>e \<in> set Z. lat (snd e) = Some (stub_lat c) \<and> lng (snd e) = Some (stub_lng c) \<and>
      stub_zip c = fst e)"
proof (induction Z arbitrary: sp)
  case Nil
  then show ?case by simp
next
  case (Cons e Z)
  from Cons.prems have "c \<in> set (all_stubs (fold cell_push Z (cell_push e sp)))" by simp
  from Cons.IH [OF this] stubs_cell_push [of c e sp] show ?case by auto
qed

lemma grid_cells_subset: "set (grid_cells idx a b c d) \<subseteq> set (all_stubs (spatialIndex idx))"
  using cells_mem_stubs [of _ "spatialIndex idx"]
  by (auto simp: grid_cells_def)

lemma loaded_stub:
  assumes five: "\<forall>x \<in> set recs. length (zip_code x) = 5"
    and c: "c \<in> set (all_stubs (spatialIndex (loadFromJSON recs new_ZIPCodeIndex)))"
  shows "\<exists>rcd. get (loadFromJSON recs new_ZIPCodeIndex) (stub_zip c) = Some rcd \<and>
           lat rcd = Some (stub_lat c) \<and> lng rcd = Some (stub_lng c)"
proof -
  let ?idx1 = "fold indexRecord recs new_ZIPCodeIndex"
  let ?idx = "loadFromJSON recs new_ZIPCodeIndex"
  have zips: "zips ?idx = zips ?idx1"
    by (simp add: loadFromJSON_def Let_def buildSpatialIndex_def)
  have sp: "spatialIndex ?idx = fold cell_push (zips ?idx1) []"
    by (simp add: loadFromJSON_def Let_def buildSpatialIndex_def spatialIndex_fold new_ZIPCodeIndex_def)
  have ok: "distinct (map fst (zips ?idx1)) \<and>
      (\<forall>(k, rcd) \<in> set (zips ?idx1). zip_code rcd = k \<and> length k = 5)"
    using five by (intro zips_fold) (simp_all add: new_ZIPCodeIndex_def)
  from c sp stubs_fold [of c "zips ?idx1" "[]"]
  obtain e where e: "e \<in> set (zips ?idx1)" "lat (snd e) = Some (stub_lat c)"
      "lng (snd e) = Some (stub_lng c)" "stub_zip c = fst e"
    by (auto simp: all_stubs_def)
  from e(1) ok have "map_of (zips ?idx1) (fst e) = Some (snd e)" "length (fst e) = 5"
    by (auto simp: case_prod_beta)
  with e zips show ?thesis by (simp add: get_five)
qed

lemma state_zips_indexRecord:
  "state_zips (indexRecord r idx) s =
     (if state_id r \<noteq> '''' \<and> s = state_id r then set_add (zip_code r) (state_zips idx s)
      else state_zips idx s)"
  by (simp add: state_zips_def stateIndex_indexRecord index_add_def update_conv')

lemma state_zips_mono:
  "z \<in> set (state_zips idx s) \<Longrightarrow> z \<in> set (state_zips (fold indexRecord recs idx) s)"
proof (induction recs arbitrary: idx)
  case Nil
  then show ?case by simp
next
  case (Cons r recs)
  from Cons.prems have "z \<in> set (state_zips (indexRecord r idx) s)"
    by (auto simp: state_zips_indexRecord set_add_def)
  from Cons.IH [OF this] show ?case by simp
qed

lemma state_zips_member:
  "r \<in> set recs \<Longrightarrow> state_id r \<noteq> '''' \<Longrightarrow>
   zip_code r \<in> set (state_zips (fold indexRecord recs idx) (state_id r))"
proof (induction recs arbitrary: idx)
  case Nil
  then show ?case by simp
next
  case (Cons x recs)
  show ?case
  proof (cases "x = r")
    case True
    with Cons.prems have "zip_code r \<in> set (state_zips (indexRecord x idx) (state_id r))"
      by (simp add: state_zips_indexRecord set_add_def)
    from state_zips_mono [OF this] show ?thesis by simp
  next
    case False
    with Cons.prems have "r \<in> set recs" by simp
    from Cons.IH [OF this Cons.prems(2)] show ?thesis by simp
  qed
qed

lemma state_zips_fold:
  "distinct (state_zips idx s) \<Longrightarrow> set (state_zips idx s) \<subseteq> fst ` set (zips idx) \<Longrightarrow>
   distinct (state_zips (fold indexRecord recs idx) s) \<and>
   set (state_zips (fold indexRecord recs idx) s) \<subseteq> fst ` set (zips (fold indexRecord recs idx))"
proof (induction recs arbitrary: idx)
  case Nil
  then show ?case by simp
next
  case (Cons r recs)
  have "distinct (state_zips (indexRecord r idx) s)"
    using Cons.prems(1) by (auto simp: state_zips_indexRecord set_add_def)
  moreover have "set (state_zips (indexRecord r idx) s) \<subseteq> fst ` set (zips (indexRecord r idx))"
    using Cons.prems(2) by (auto simp: state_zips_indexRecord set_add_def zips_indexRecord dom_update)
  ultimately show ?case using Cons.IH [of "indexRecord r idx"] by simp
qed

lemma getByState_loop_take:
  "getByState_loop idx limit zs acc =
     acc @ map (get idx) (take (nat (max 1 (limit - int (length acc)))) zs)"
proof (induction zs arbitrary: acc)
  case Nil
  then show ?case by simp
next
  case (Cons z zs)
  show ?case
  proof (cases "int (length (acc @ [get idx z])) \<ge> limit")
    case True
    then have "nat (max 1 (limit - int (length acc))) = 1" by simp
    with True show ?thesis by (simp add: Let_def)
  next
    case False
    define n where "n = nat (max 1 (limit - int (length (acc @ [get idx z]))))"
    with False have "nat (max 1 (limit - int (length acc))) = Suc n" by simp
    with False Cons.IH [of "acc @ [get idx z]"] n_def show ?thesis by (simp add: Let_def)
  qed
qed

lemma count_list_distinct: "distinct xs \<Longrightarrow> count_list xs x = (if x \<in> set xs then 1 else 0)"
  by (induction xs) auto

lemma count_list_map_Some: "count_list (map Some xs) (Some x) = count_list xs x"
  by (induction xs) auto

lemma state_results:
  assumes five: "\<forall>x \<in> set recs. length (zip_code x) = 5"
  shows "map (map_option zip_code) (getByState (loadFromJSON recs new_ZIPCodeIndex) s limit) =
         map Some (take (nat (max 1 limit))
           (state_zips (loadFromJSON recs new_ZIPCodeIndex) (toUpperCase s)))
       \<and> distinct (state_zips (loadFromJSON recs new_ZIPCodeIndex) (toUpperCase s))"
proof -
  let ?idx1 = "fold indexRecord recs new_ZIPCodeIndex"
  let ?idx = "loadFromJSON recs new_ZIPCodeIndex"
  let ?zs = "state_zips ?idx (toUpperCase s)"
  have zips: "zips ?idx = zips ?idx1"
    by (simp add: loadFromJSON_def Let_def buildSpatialIndex_def)
  have st: "state_zips ?idx t = state_zips ?idx1 t" for t
    by (simp add: loadFromJSON_def Let_def buildSpatialIndex_def state_zips_def)
  have ok: "distinct (map fst (zips ?idx1)) \<and>
      (\<forall>(k, rcd) \<in> set (zips ?idx1). zip_code rcd = k \<and> length k = 5)"
    using five by (intro zips_fold) (simp_all add: new_ZIPCodeIndex_def)
  have inv: "distinct ?zs \<and> set ?zs \<subseteq> fst ` set (zips ?idx1)"
    unfolding st by (intro state_zips_fold) (simp_all add: new_ZIPCodeIndex_def state_zips_def)
  have one: "map_option zip_code (get ?idx z) = Some z" if "z \<in> set ?zs" for z
  proof -
    from that inv obtain rcd where e: "(z, rcd) \<in> set (zips ?idx1)" by auto
    with ok have "map_of (zips ?idx1) z = Some rcd" "zip_code rcd = z" "length z = 5" by auto
    with zips show ?thesis by (simp add: get_five)
  qed
  have "map (map_option zip_code) (map (get ?idx) (take n ?zs)) = map Some (take n ?zs)" for n
    using one by (auto dest: in_set_takeD)
  then have "map (map_option zip_code) (getByState ?idx s limit) =
      map Some (take (nat (max 1 limit)) ?zs)"
    by (simp add: getByState_def getByState_loop_take state_zips_def)
  with inv show ?thesis by simp
qed

lemma search_cells_subset:
  "set (search_cells idx la lo r) \<subseteq> set (all_stubs (spatialIndex idx))"
proof -
  obtain minLat maxLat minLng maxLng where "search_box la lo r = (minLat, maxLat, minLng, maxLng)"
    by (cases "search_box la lo r") auto
  then show ?thesis using grid_cells_subset by (simp add: search_cells_def)
qed

lemma matches_append:
  "matches idx la lo r box (xs @ ys) = matches idx la lo r box xs @ matches idx la lo r box ys"
proof -
  obtain minLat maxLat minLng maxLng where box: "box = (minLat, maxLat, minLng, maxLng)"
    by (cases box) auto
  show ?thesis unfolding box
    by (induction xs) (auto split: option.splits)
qed

text \<open>
  Claim C9. The list that \<open>searchByRadius\<close> returns is sorted ascending by distance on
  both return paths, the early one included.
\<close>

theorem searchByRadius_sorted:
  "sorted (map distance (searchByRadius idx la lo r limit))"
  unfolding searchByRadius_unfold by (rule scan_sorted)

theorem searchByRadius_sorted_witness:
  "sorted (map distance (searchByRadius
     (loadFromJSON
        [\<lparr>zip_code = ''10001'', lat = Some 0, lng = Some 0, state_id = ''NY'',
          city = ''New York'', county_fips = ''36061''\<rparr>,
         \<lparr>zip_code = ''10002'', lat = Some (1/4), lng = Some 0, state_id = ''NY'',
          city = ''New York'', county_fips = ''36061''\<rparr>] new_ZIPCodeIndex)
     0 0 50 1))"
  by (rule searchByRadius_sorted)

text \<open>
  Claim C8, as amended. For a limit of at least 1, \<open>searchByRadius\<close> returns the first
  \<open>limit\<close> matches in scanning order, sorted ascending by distance: at most \<open>limit\<close> results,
  all the matches when there are fewer than \<open>limit\<close>; and the scan depends on no stub after
  the one that completes the limit. For every limit, the result is empty when no stub of
  the index lies within the radius.
\<close>

theorem searchByRadius_limit:
  "(1 \<le> limit \<longrightarrow>
      searchByRadius idx la lo r limit =
        sort_key distance (take (nat limit)
          (matches idx la lo r (search_box la lo r) (search_cells idx la lo r)))
      \<and> int (length (searchByRadius idx la lo r limit)) \<le> limit)
   \<and> (1 \<le> limit \<and> limit \<le> int (length (matches idx la lo r box xs)) \<longrightarrow>
        searchByRadius_scan idx la lo r limit box (xs @ ys) [] =
        searchByRadius_scan idx la lo r limit box xs [])
   \<and> ((\<forall>cell \<in> set (all_stubs (spatialIndex idx)).
          \<not> haversine la lo (stub_lat cell) (stub_lng cell) \<le> r) \<longrightarrow>
        searchByRadius idx la lo r limit = [])"
proof -
  have first: "searchByRadius idx la lo r limit =
        sort_key distance (take (nat limit)
          (matches idx la lo r (search_box la lo r) (search_cells idx la lo r)))
      \<and> int (length (searchByRadius idx la lo r limit)) \<le> limit" if "1 \<le> limit"
    using that scan_take [of "[]" limit idx la lo r "search_box la lo r" "search_cells idx la lo r"]
    by (simp add: searchByRadius_unfold)
  have early: "searchByRadius_scan idx la lo r limit box (xs @ ys) [] =
        searchByRadius_scan idx la lo r limit box xs []"
    if "1 \<le> limit \<and> limit \<le> int (length (matches idx la lo r box xs))"
  proof -
    from that have "nat limit \<le> length (matches idx la lo r box xs)" by linarith
    with that scan_take [of "[]" limit idx la lo r box] show ?thesis
      by (simp add: matches_append)
  qed
  have none: "searchByRadius idx la lo r limit = []"
    if far: "\<forall>cell \<in> set (all_stubs (spatialIndex idx)).
          \<not> haversine la lo (stub_lat cell) (stub_lng cell) \<le> r"
  proof -
    from far search_cells_subset [of idx la lo r] have "matches idx la lo r (search_box la lo r) (search_cells idx la lo r) = []"
      by (intro matches_Nil) blast
    with scan_subset [of idx la lo r limit "search_box la lo r" "search_cells idx la lo r" "[]"]
    show ?thesis by (simp add: searchByRadius_unfold)
  qed
  from first early none show ?thesis by blast
qed

theorem searchByRadius_limit_witness:
  "int (length (searchByRadius
     (loadFromJSON
        [\<lparr>zip_code = ''10001'', lat = Some 0, lng = Some 0, state_id = ''NY'',
          city = ''New York'', county_fips = ''36061''\<rparr>] new_ZIPCodeIndex)
     0 0 0 1)) \<le> 1
   \<and> searchByRadius
     (loadFromJSON
        [\<lparr>zip_code = ''10001'', lat = Some 0, lng = Some 0, state_id = ''NY'',
          city = ''New York'', county_fips = ''36061''\<rparr>] new_ZIPCodeIndex)
     0 0 (-1) 1 = []"
proof -
  let ?idx = "loadFromJSON
        [\<lparr>zip_code = ''10001'', lat = Some 0, lng = Some 0, state_id = ''NY'',
          city = ''New York'', county_fips = ''36061''\<rparr>] new_ZIPCodeIndex"
  have stubs: "all_stubs (spatialIndex ?idx) = [Stub ''10001'' 0 0]"
    by (simp add: loadFromJSON_def indexRecord_def index_add_def set_add_def new_ZIPCodeIndex_def
      buildSpatialIndex_def cell_push_def getGridKey_def GRID_SIZE_def all_stubs_def)
  have far: "\<forall>cell \<in> set (all_stubs (spatialIndex ?idx)).
      \<not> haversine 0 0 (stub_lat cell) (stub_lng cell) \<le> -1"
    unfolding stubs by (simp add: haversine_def atan2_def)
  have one: "(1 :: int) \<le> 1" by simp
  from searchByRadius_limit [of 1 ?idx 0 0 0] one
  have "int (length (searchByRadius ?idx 0 0 0 1)) \<le> 1" by blast
  moreover from searchByRadius_limit [of 1 ?idx 0 0 "-1"] far
  have "searchByRadius ?idx 0 0 (-1) 1 = []" by blast
  ultimately show ?thesis by blast
qed

text \<open>
  Claim C8 as stated fails for a limit below 1: the limit is tested after the push, so with
  \<open>limit = 0\<close> the first match is returned.
\<close>

theorem searchByRadius_limit_counterexample:
  "searchByRadius
     (loadFromJSON
        [\<lparr>zip_code = ''10001'', lat = Some 0, lng = Some 0, state_id = ''NY'',
          city = ''New York'', county_fips = ''36061''\<rparr>] new_ZIPCodeIndex)
     0 0 0 0 =
   [\<lparr>hit_record = \<lparr>zip_code = ''10001'', lat = Some 0, lng = Some 0, state_id = ''NY'',
          city = ''New York'', county_fips = ''36061''\<rparr>, distance = 0\<rparr>]"
  by (simp add: searchByRadius_def loadFromJSON_def indexRecord_def index_add_def set_add_def
      new_ZIPCodeIndex_def get_def padStart_def buildSpatialIndex_def
      cell_push_def getGridKey_def GRID_SIZE_def grid_cells_def in_box_def haversine_def atan2_def)

text \<open>
  Claim C5, as amended. In an index built by one \<open>loadFromJSON\<close> on a new index, from
  records whose ZIP keys have 5 characters, every record that \<open>searchByRadius\<close> returns has
  coordinates, carries as its \<open>distance\<close> the Haversine distance (Earth radius 6371 km) from
  the query point to those coordinates, and that distance does not exceed the radius; for
  radius 0 the coordinates are those of the query point.
\<close>

theorem searchByRadius_within_radius:
  assumes "\<forall>x \<in> set recs. length (zip_code x) = 5"
    and "h \<in> set (searchByRadius (loadFromJSON recs new_ZIPCodeIndex) la lo r limit)"
  shows "\<exists>la' lo'. lat (hit_record h) = Some la' \<and> lng (hit_record h) = Some lo' \<and>
           distance h = haversine la lo la' lo' \<and> distance h \<le> r \<and>
           (r = 0 \<longrightarrow> la' = la \<and> lo' = lo)"
proof -
  let ?idx = "loadFromJSON recs new_ZIPCodeIndex"
  obtain minLat maxLat minLng maxLng where box: "search_box la lo r = (minLat, maxLat, minLng, maxLng)"
    by (cases "search_box la lo r") auto
  from assms(2) scan_subset [of ?idx la lo r limit "search_box la lo r" "search_cells ?idx la lo r" "[]"]
  have "h \<in> set (matches ?idx la lo r (minLat, maxLat, minLng, maxLng) (search_cells ?idx la lo r))"
    by (auto simp: searchByRadius_unfold box)
  from matches_mem [OF this]
  obtain cell where cell: "cell \<in> set (search_cells ?idx la lo r)"
      "in_box minLat maxLat minLng maxLng cell"
      "distance h = haversine la lo (stub_lat cell) (stub_lng cell)" "distance h \<le> r"
      "get ?idx (stub_zip cell) = Some (hit_record h)"
    by blast
  from search_cells_subset [of ?idx la lo r] cell(1) loaded_stub [OF assms(1), of cell] cell(5)
  have coords: "lat (hit_record h) = Some (stub_lat cell)" "lng (hit_record h) = Some (stub_lng cell)"
    by auto
  have "stub_lat cell = la \<and> stub_lng cell = lo" if "r = 0"
    using that box cell(2) by (auto simp: search_box_def in_box_def)
  with coords cell(3,4) show ?thesis by blast
qed

theorem searchByRadius_within_radius_witness:
  "searchByRadius
     (loadFromJSON
        [\<lparr>zip_code = ''10001'', lat = Some 0, lng = Some 0, state_id = ''NY'',
          city = ''New York'', county_fips = ''36061''\<rparr>] new_ZIPCodeIndex)
     0 0 0 10 =
   [\<lparr>hit_record = \<lparr>zip_code = ''10001'', lat = Some 0, lng = Some 0, state_id = ''NY'',
          city = ''New York'', county_fips = ''36061''\<rparr>, distance = 0\<rparr>]
   \<and> (\<exists>la' lo'. Some (0 :: real) = Some la' \<and> Some (0 :: real) = Some lo' \<and>
         (0 :: real) = haversine 0 0 la' lo' \<and> (0 :: real) \<le> 0)"
proof -
  let ?r = "\<lparr>zip_code = ''10001'', lat = Some 0, lng = Some 0, state_id = ''NY'',
          city = ''New York'', county_fips = ''36061''\<rparr>"
  have res: "searchByRadius (loadFromJSON [?r] new_ZIPCodeIndex) 0 0 0 10 =
      [\<lparr>hit_record = ?r, distance = 0\<rparr>]"
    by (simp add: searchByRadius_def loadFromJSON_def indexRecord_def index_add_def set_add_def
      new_ZIPCodeIndex_def get_def padStart_def buildSpatialIndex_def
      cell_push_def getGridKey_def GRID_SIZE_def grid_cells_def in_box_def haversine_def atan2_def)
  have "\<forall>x \<in> set [?r]. length (zip_code x) = 5" by simp
  from searchByRadius_within_radius [OF this, of "\<lparr>hit_record = ?r, distance = 0\<rparr>" 0 0 0 10] res
  show ?thesis by simp
qed

text \<open>
  Claim C5 as stated fails, because the distance is that of the stub and the record is
  looked up afresh under the padded key. A stub with the key \<open>501\<close> at the query point makes
  \<open>get\<close> return the record stored under \<open>00501\<close>, which lies at (10, 10); and after a second
  \<open>loadFromJSON\<close> that moves ZIP 10001 to (10, 10), the stub of the first load is still in its
  cell. Both searches, with radius 0 at (0, 0), return the record at (10, 10) with
  distance 0.
\<close>

theorem searchByRadius_stale_counterexample:
  "searchByRadius
     (loadFromJSON
        [\<lparr>zip_code = ''501'', lat = Some 0, lng = Some 0, state_id = ''NY'',
          city = ''Holtsville'', county_fips = ''36103''\<rparr>,
         \<lparr>zip_code = ''00501'', lat = Some 10, lng = Some 10, state_id = ''NY'',
          city = ''Holtsville'', county_fips = ''36103''\<rparr>] new_ZIPCodeIndex)
     0 0 0 10 =
   [\<lparr>hit_record = \<lparr>zip_code = ''00501'', lat = Some 10, lng = Some 10, state_id = ''NY'',
          city = ''Holtsville'', county_fips = ''36103''\<rparr>, distance = 0\<rparr>]
   \<and> searchByRadius
     (loadFromJSON
        [\<lparr>zip_code = ''10001'', lat = Some 10, lng = Some 10, state_id = ''NY'',
          city = ''New York'', county_fips = ''36061''\<rparr>]
        (loadFromJSON
           [\<lparr>zip_code = ''10001'', lat = Some 0, lng = Some 0, state_id = ''NY'',
             city = ''New York'', county_fips = ''36061''\<rparr>] new_ZIPCodeIndex))
     0 0 0 10 =
   [\<lparr>hit_record = \<lparr>zip_code = ''10001'', lat = Some 10, lng = Some 10, state_id = ''NY'',
          city = ''New York'', county_fips = ''36061''\<rparr>, distance = 0\<rparr>]"
  by (simp add: searchByRadius_def loadFromJSON_def indexRecord_def index_add_def set_add_def
      new_ZIPCodeIndex_def get_def padStart_def numeral_2_eq_2 buildSpatialIndex_def
      cell_push_def getGridKey_def GRID_SIZE_def grid_cells_def in_box_def haversine_def atan2_def)

text \<open>
  Claim C7, as amended. Load any records with 5-character ZIP keys, among them (any number
  of times) a record with a non-empty upper-case state code. Then \<open>getByState\<close> for that code
  never returns the record's ZIP twice, and returns it exactly once whenever the limit is
  not below the number of ZIPs indexed under the state.
\<close>

theorem getByState_contains_once:
  assumes "\<forall>x \<in> set recs. length (zip_code x) = 5"
    and "r \<in> set recs" and "state_id r \<noteq> ''''" and "toUpperCase (state_id r) = state_id r"
  shows "count_list (map (map_option zip_code)
            (getByState (loadFromJSON recs new_ZIPCodeIndex) (state_id r) limit))
           (Some (zip_code r)) \<le> 1
       \<and> (int (length (state_zips (loadFromJSON recs new_ZIPCodeIndex) (state_id r))) \<le> limit \<longrightarrow>
          count_list (map (map_option zip_code)
            (getByState (loadFromJSON recs new_ZIPCodeIndex) (state_id r) limit))
           (Some (zip_code r)) = 1)"
proof -
  let ?idx = "loadFromJSON recs new_ZIPCodeIndex"
  let ?zs = "state_zips ?idx (state_id r)"
  let ?n = "nat (max 1 limit)"
  from state_results [OF assms(1), of "state_id r" limit] assms(4)
  have res: "map (map_option zip_code) (getByState ?idx (state_id r) limit) = map Some (take ?n ?zs)"
    and d: "distinct ?zs"
    by simp_all
  have cnt: "count_list (map (map_option zip_code) (getByState ?idx (state_id r) limit))
      (Some (zip_code r)) = (if zip_code r \<in> set (take ?n ?zs) then 1 else 0)"
    using d by (simp add: res count_list_map_Some count_list_distinct)
  have mem: "zip_code r \<in> set ?zs"
    using state_zips_member [OF assms(2,3), of new_ZIPCodeIndex]
    by (simp add: loadFromJSON_def Let_def buildSpatialIndex_def state_zips_def)
  have "zip_code r \<in> set (take ?n ?zs)" if "int (length ?zs) \<le> limit"
    using that mem by simp
  with cnt show ?thesis by simp
qed

theorem getByState_contains_once_witness:
  "count_list (map (map_option zip_code)
      (getByState (loadFromJSON
         [\<lparr>zip_code = ''10001'', lat = Some 0, lng = Some 0, state_id = ''NY'',
           city = ''New York'', county_fips = ''36061''\<rparr>,
          \<lparr>zip_code = ''10001'', lat = Some 0, lng = Some 0, state_id = ''NY'',
           city = ''New York'', county_fips = ''36061''\<rparr>] new_ZIPCodeIndex) ''NY'' 100))
      (Some ''10001'') = 1"
proof -
  let ?r = "\<lparr>zip_code = ''10001'', lat = Some 0, lng = Some 0, state_id = ''NY'',
          city = ''New York'', county_fips = ''36061''\<rparr>"
  have len: "int (length (state_zips (loadFromJSON [?r, ?r] new_ZIPCodeIndex) ''NY'')) \<le> 100"
    by (simp add: state_zips_def loadFromJSON_def indexRecord_def index_add_def set_add_def
        new_ZIPCodeIndex_def buildSpatialIndex_def)
  have "\<forall>x \<in> set [?r, ?r]. length (zip_code x) = 5" "?r \<in> set [?r, ?r]"
    "state_id ?r \<noteq> ''''" "toUpperCase (state_id ?r) = state_id ?r"
    by (simp_all add: toUpperCase_def)
  from getByState_contains_once [OF this, of 100] len show ?thesis by simp
qed

text \<open>
  Claim C7 as stated fails when the limit cuts the state's set short: with two New York
  records loaded and \<open>limit = 1\<close>, the ZIP of the second one is not returned.
\<close>

theorem getByState_limit_counterexample:
  "getByState (loadFromJSON
      [\<lparr>zip_code = ''10001'', lat = Some 0, lng = Some 0, state_id = ''NY'',
        city = ''New York'', county_fips = ''36061''\<rparr>,
       \<lparr>zip_code = ''10002'', lat = Some (1/4), lng = Some 0, state_id = ''NY'',
        city = ''New York'', county_fips = ''36061''\<rparr>] new_ZIPCodeIndex) ''NY'' 1 =
   [Some \<lparr>zip_code = ''10001'', lat = Some 0, lng = Some 0, state_id = ''NY'',
        city = ''New York'', county_fips = ''36061''\<rparr>]"
  by (simp add: getByState_def loadFromJSON_def indexRecord_def index_add_def set_add_def
      new_ZIPCodeIndex_def toUpperCase_def get_def padStart_def buildSpatialIndex_def)

section \<open>Properties of the cache store\<close>

lemma items_fold_removeItem:
  "items (fold (\<lambda>entry. removeItem (fst entry)) vs ls) =
     filter (\<lambda>kv. fst kv \<notin> fst ` set vs) (items ls)"
proof (induction vs arbitrary: ls)
  case Nil
  then show ?case by simp
next
  case (Cons v vs)
  have "items (removeItem (fst v) ls) = filter (\<lambda>kv. fst kv \<noteq> fst v) (items ls)"
    by (auto simp: removeItem_def AList.delete_eq intro: filter_cong)
  with Cons.IH [of "removeItem (fst v) ls"] show ?case
    by (auto intro: filter_cong)
qed

lemma take_le_drop:
  assumes "sorted (map f xs)" "x \<in> set (take n xs)" "y \<in> set (drop n xs)"
  shows "f x \<le> f y"
proof -
  have "sorted (map f (take n xs) @ map f (drop n xs))"
    using assms(1) by (simp flip: map_append)
  with assms(2,3) show ?thesis by (auto simp: sorted_append)
qed

lemma insert_entry_insort:
  "snd x \<noteq> NaN \<Longrightarrow> \<forall>y \<in> set ys. snd y \<noteq> NaN \<Longrightarrow>
   insert_entry x ys = insort_key (\<lambda>e. instant_of (snd e)) x ys"
proof (induction ys)
  case Nil
  then show ?case by simp
next
  case (Cons y ys)
  from Cons.prems obtain a b where "snd x = Number a" "snd y = Number b"
    by (cases "snd x"; cases "snd y") auto
  with Cons show ?case by (auto simp: sorts_after_def instant_of_def)
qed

lemma sort_entries_sort_key:
  "\<forall>y \<in> set ys. snd y \<noteq> NaN \<Longrightarrow> sort_entries ys = sort_key (\<lambda>e. instant_of (snd e)) ys"
proof (induction ys)
  case Nil
  then show ?case by (simp add: sort_entries_def)
next
  case (Cons y ys)
  then have "sort_entries ys = sort_key (\<lambda>e. instant_of (snd e)) ys" by simp
  moreover have "\<forall>z \<in> set (sort_key (\<lambda>e. instant_of (snd e)) ys). snd z \<noteq> NaN"
    using Cons.prems by simp
  ultimately show ?case
    using Cons.prems insert_entry_insort [of y "sort_key (\<lambda>e. instant_of (snd e)) ys"]
    by (simp add: sort_entries_def)
qed

lemma length_sort_entries: "length (sort_entries ys) = length ys"
proof -
  have "length (insert_entry x xs) = Suc (length xs)" for x xs
    by (induction xs) auto
  then show ?thesis by (induction ys) (simp_all add: sort_entries_def)
qed

lemma oldest_ranked:
  assumes valid: "\<forall>kv \<in> set (items ls). startsWith (fst kv) cachePrefix \<longrightarrow> entry_cachedAt (snd kv) \<noteq> NaN"
    and x: "x \<in> set (oldest_entries cachePrefix n ls)"
    and kv: "kv \<in> set (items (clearOldestCacheEntries cachePrefix n ls))"
    and pre: "startsWith (fst kv) cachePrefix"
  shows "\<exists>a b. snd x = Number a \<and> entry_cachedAt (snd kv) = Number b \<and> a \<le> b"
proof -
  let ?E = "map (\<lambda>kv. (fst kv, entry_cachedAt (snd kv)))
          (filter (\<lambda>kv. startsWith (fst kv) cachePrefix) (items ls))"
  let ?f = "\<lambda>e :: string \<times> js_number. instant_of (snd e)"
  let ?S = "sort_key ?f ?E"
  from valid have noNaN: "\<forall>y \<in> set ?E. snd y \<noteq> NaN" by auto
  then have S: "sort_entries ?E = ?S" by (rule sort_entries_sort_key)
  from kv have kept: "kv \<in> set (items ls)" "fst kv \<notin> fst ` set (take n ?S)"
    by (auto simp: clearOldestCacheEntries_def items_fold_removeItem oldest_entries_def S)
  with pre have "(fst kv, entry_cachedAt (snd kv)) \<in> set ?S" by auto
  then have "(fst kv, entry_cachedAt (snd kv)) \<in> set (take n ?S @ drop n ?S)" by simp
  with kept(2) have d: "(fst kv, entry_cachedAt (snd kv)) \<in> set (drop n ?S)"
    by (auto simp del: append_take_drop_id intro: rev_image_eqI)
  from x have t: "x \<in> set (take n ?S)" by (simp add: oldest_entries_def S)
  have "sorted (map ?f ?S)" by simp
  from take_le_drop [OF this t d] have le: "instant_of (snd x) \<le> instant_of (entry_cachedAt (snd kv))"
    by simp
  from t have "x \<in> set ?E" by (auto dest: in_set_takeD)
  with noNaN obtain a where a: "snd x = Number a" by (cases "snd x") auto
  from kept(1) pre valid obtain b where b: "entry_cachedAt (snd kv) = Number b"
    by (cases "entry_cachedAt (snd kv)") auto
  from le a b show ?thesis by (simp add: instant_of_def)
qed

lemma length_toString16: "0 < k \<Longrightarrow> n < 16 ^ k \<Longrightarrow> length (toString16 n) \<le> k"
proof (induction k arbitrary: n)
  case 0
  then show ?case by simp
next
  case (Suc k)
  show ?case
  proof (cases "n < 16")
    case True
    then show ?thesis by (simp add: toString16.simps [of n])
  next
    case False
    with Suc.prems have "0 < k" by (cases k) auto
    moreover from Suc.prems have "n div 16 < 16 ^ k" by (simp add: less_mult_imp_div_less mult.commute)
    ultimately have "length (toString16 (n div 16)) \<le> k" by (rule Suc.IH)
    with False show ?thesis by (simp add: toString16.simps [of n])
  qed
qed

lemma length_hashString: "length (hashString str) = 8"
proof -
  define h where "h = fold (\<lambda>c h. (push_bit 5 h - h) + of_nat (of_char c)) str (0 :: 32 word)"
  have "- (2 ^ 31) \<le> sint h" "sint h < 2 ^ 31"
    using sint_ge [of h] sint_lt [of h] by simp_all
  then have "nat \<bar>sint h\<bar> < 16 ^ 8" by simp
  then have "length (toString16 (nat \<bar>sint h\<bar>)) \<le> 8" by (intro length_toString16) simp_all
  then show ?thesis by (simp add: hashString_def padStart_def h_def Let_def)
qed

lemma set_insert_entry: "set (insert_entry x xs) = insert x (set xs)"
  by (induction xs) auto

lemma set_sort_entries: "set (sort_entries xs) = set xs"
  by (induction xs) (simp_all add: sort_entries_def set_insert_entry)

text \<open>
  Claim C2 fails on the code. \<open>cleanCache\<close> walks the storage by ascending index while it
  removes from it: after a removal the next pair moves into the index just visited and is
  skipped. With two expired entries side by side the first sweep removes one and leaves
  the other, and a second sweep at the same instant removes that one: the store has
  size 1 after the first sweep and size 0 after the second.
\<close>

theorem cleanCache_skips_after_removal:
  "cleanCache ''acs_cache_v1.0_'' 1800000000000
     \<lparr>items = [(''acs_cache_v1.0_10001_0bcaa0be'',
                 Stored 180 (Entry (Some 1700000000000) (Number 1697408000000) ''a'')),
                (''acs_cache_v1.0_10002_0bcaa0be'',
                 Stored 180 (Entry (Some 1700000000000) (Number 1697408000000) ''b''))],
      quota = 5000000\<rparr>
   = (\<lparr>items = [(''acs_cache_v1.0_10002_0bcaa0be'',
                   Stored 180 (Entry (Some 1700000000000) (Number 1697408000000) ''b''))],
        quota = 5000000\<rparr>, 1)
   \<and> cleanCache ''acs_cache_v1.0_'' 1800000000000
     \<lparr>items = [(''acs_cache_v1.0_10002_0bcaa0be'',
                 Stored 180 (Entry (Some 1700000000000) (Number 1697408000000) ''b''))],
      quota = 5000000\<rparr>
   = (\<lparr>items = [], quota = 5000000\<rparr>, 1)"
  by (simp add: cleanCache_def cleanCache_loop.simps startsWith_def removeItem_def is_expired_def)

text \<open>
  With a \<open>cachedAt\<close> that is not a date the comparator returns \<open>NaN\<close> and the order of the
  entries stays as it was: the entry evicted here is the one in front, whatever its age,
  while an entry written in 1990 stays.
\<close>

lemma clearOldestCacheEntries_NaN:
  "items (clearOldestCacheEntries ''acs_cache_v1.0_'' 1
     \<lparr>items = [(''acs_cache_v1.0_20001_0bcaa0be'', Stored 180 (Entry (Some 1800000000000) NaN ''a'')),
                (''acs_cache_v1.0_20002_0bcaa0be'',
                 Stored 180 (Entry (Some 1800000000000) (Number 631152000000) ''b''))],
      quota = 5000000\<rparr>) =
   [(''acs_cache_v1.0_20002_0bcaa0be'',
     Stored 180 (Entry (Some 1800000000000) (Number 631152000000) ''b''))]"
  by (simp add: clearOldestCacheEntries_def oldest_entries_def sort_entries_def startsWith_def
      entry_cachedAt_def sorts_after_def removeItem_def)

text \<open>
  Claim C4, as amended. When the write fails with a \<open>QuotaExceededError\<close>, \<open>cacheData\<close>
  evicts with \<open>clearOldestCacheEntries\<close> and a count of 20, schedules itself again and
  returns; the scheduled call writes the entry when its write succeeds.
  \<open>clearOldestCacheEntries\<close> removes exactly the entries it has ranked first, all of them
  entries under the store's prefix, \<open>count\<close> of them or all the store's entries if there are
  fewer; and where no entry of the store has a \<open>cachedAt\<close> that is \<open>NaN\<close>, every entry it
  removes has a \<open>cachedAt\<close> instant no later than that of every entry of the store it keeps.
\<close>

theorem cacheData_quota_eviction:
  "(setItem (snd (getCacheKey cachePrefix z variables))
        (Stored len (Entry (Some (now + cacheDuration)) (Number now) data)) ls
      = Inl (Error ''QuotaExceededError'' msg) \<longrightarrow>
      cacheData cachePrefix now z variables data len ls =
        (sort variables, clearOldestCacheEntries cachePrefix 20 ls, RetryScheduled))
   \<and> (setItem (snd (getCacheKey cachePrefix z variables))
        (Stored len (Entry (Some (now + cacheDuration)) (Number now) data)) ls = Inr ls' \<longrightarrow>
      cacheData cachePrefix now z variables data len ls =
        (sort variables, manageCacheSize cachePrefix ls', Written))
   \<and> items (clearOldestCacheEntries cachePrefix n ls) =
        filter (\<lambda>kv. fst kv \<notin> fst ` set (oldest_entries cachePrefix n ls)) (items ls)
   \<and> (\<forall>x \<in> set (oldest_entries cachePrefix n ls). startsWith (fst x) cachePrefix)
   \<and> length (oldest_entries cachePrefix n ls) =
        min n (length (filter (\<lambda>kv. startsWith (fst kv) cachePrefix) (items ls)))
   \<and> ((\<forall>kv \<in> set (items ls). startsWith (fst kv) cachePrefix \<longrightarrow> entry_cachedAt (snd kv) \<noteq> NaN) \<longrightarrow>
        (\<forall>x \<in> set (oldest_entries cachePrefix n ls).
           \<forall>kv \<in> set (items (clearOldestCacheEntries cachePrefix n ls)).
             startsWith (fst kv) cachePrefix \<longrightarrow>
             (\<exists>a b. snd x = Number a \<and> entry_cachedAt (snd kv) = Number b \<and> a \<le> b)))"
proof -
  have evict: "cacheData cachePrefix now z variables data len ls =
        (sort variables, clearOldestCacheEntries cachePrefix 20 ls, RetryScheduled)"
    if "setItem (snd (getCacheKey cachePrefix z variables))
        (Stored len (Entry (Some (now + cacheDuration)) (Number now) data)) ls
      = Inl (Error ''QuotaExceededError'' msg)"
    using that by (simp add: cacheData_def getCacheKey_def error_name_def Let_def)
  have written: "cacheData cachePrefix now z variables data len ls =
        (sort variables, manageCacheSize cachePrefix ls', Written)"
    if "setItem (snd (getCacheKey cachePrefix z variables))
        (Stored len (Entry (Some (now + cacheDuration)) (Number now) data)) ls = Inr ls'"
    using that by (simp add: cacheData_def getCacheKey_def Let_def)
  have removed: "items (clearOldestCacheEntries cachePrefix n ls) =
        filter (\<lambda>kv. fst kv \<notin> fst ` set (oldest_entries cachePrefix n ls)) (items ls)"
    by (simp add: clearOldestCacheEntries_def items_fold_removeItem)
  have own: "\<forall>x \<in> set (oldest_entries cachePrefix n ls). startsWith (fst x) cachePrefix"
    by (auto simp: oldest_entries_def set_sort_entries dest!: in_set_takeD)
  have number: "length (oldest_entries cachePrefix n ls) =
        min n (length (filter (\<lambda>kv. startsWith (fst kv) cachePrefix) (items ls)))"
    by (simp add: oldest_entries_def length_sort_entries min.commute)
  from evict written removed own number oldest_ranked [of ls cachePrefix _ n] show ?thesis
    by blast
qed

theorem cacheData_quota_eviction_witness:
  "cacheData ''acs_cache_v1.0_'' 1800000000000 ''10001'' [''B19013_001E'', ''B01003_001E''] ''x'' 200
     \<lparr>items = [(''acs_cache_v1.0_20002_0bcaa0be'',
                 Stored 180 (Entry (Some 1700000000000) (Number 1697408000000) ''a'')),
                (''theme'', Stored 4 (Entry None (Number 0) ''dark''))],
      quota = 300\<rparr> =
   ([''B01003_001E'', ''B19013_001E''],
    clearOldestCacheEntries ''acs_cache_v1.0_'' 20
      \<lparr>items = [(''acs_cache_v1.0_20002_0bcaa0be'',
                 Stored 180 (Entry (Some 1700000000000) (Number 1697408000000) ''a'')),
                (''theme'', Stored 4 (Entry None (Number 0) ''dark''))],
      quota = 300\<rparr>,
    RetryScheduled)
   \<and> items (clearOldestCacheEntries ''acs_cache_v1.0_'' 20
      \<lparr>items = [(''acs_cache_v1.0_20002_0bcaa0be'',
                 Stored 180 (Entry (Some 1700000000000) (Number 1697408000000) ''a'')),
                (''theme'', Stored 4 (Entry None (Number 0) ''dark''))],
      quota = 300\<rparr>) = [(''theme'', Stored 4 (Entry None (Number 0) ''dark''))]"
proof -
  let ?ls = "\<lparr>items = [(''acs_cache_v1.0_20002_0bcaa0be'',
                 Stored 180 (Entry (Some 1700000000000) (Number 1697408000000) ''a'')),
                (''theme'', Stored 4 (Entry None (Number 0) ''dark''))],
      quota = 300\<rparr>"
  have srt: "sort [''B19013_001E'', ''B01003_001E''] = [''B01003_001E'', ''B19013_001E'']"
    by simp
  have fails: "setItem (snd (getCacheKey ''acs_cache_v1.0_'' ''10001'' [''B19013_001E'', ''B01003_001E'']))
        (Stored 200 (Entry (Some (1800000000000 + cacheDuration)) (Number 1800000000000) ''x'')) ?ls
      = Inl (Error ''QuotaExceededError'' ''The quota has been exceeded.'')"
    by (simp add: setItem_def getCacheKey_def storage_size_def)
  have old: "oldest_entries ''acs_cache_v1.0_'' 20 ?ls =
      [(''acs_cache_v1.0_20002_0bcaa0be'', Number 1697408000000)]"
    by (simp add: oldest_entries_def sort_entries_def startsWith_def entry_cachedAt_def)
  from cacheData_quota_eviction [where cachePrefix = "''acs_cache_v1.0_''" and z = "''10001''"
      and variables = "[''B19013_001E'', ''B01003_001E'']" and len = 200 and now = 1800000000000
      and data = "''x''" and ls = ?ls and msg = "''The quota has been exceeded.''" and n = 20] fails
  have "cacheData ''acs_cache_v1.0_'' 1800000000000 ''10001'' [''B19013_001E'', ''B01003_001E''] ''x'' 200 ?ls
      = (sort [''B19013_001E'', ''B01003_001E''], clearOldestCacheEntries ''acs_cache_v1.0_'' 20 ?ls,
         RetryScheduled)"
    and "items (clearOldestCacheEntries ''acs_cache_v1.0_'' 20 ?ls) =
        filter (\<lambda>kv. fst kv \<notin> fst ` set (oldest_entries ''acs_cache_v1.0_'' 20 ?ls)) (items ?ls)"
    by blast+
  then show ?thesis unfolding old srt by simp
qed

text \<open>
  Claim C4 as stated fails: the retry is not a single one, and its failure is not surfaced.
  The store holds 21 entries of its own within a quota of 5000000, and the entry to write
  needs more room than the 20 oldest give up. The call evicts those 20 and schedules the
  retry; the retry fails too, returns normally all the same, evicts the entry that was
  left and schedules a second retry; the second retry writes the entry.
\<close>

theorem cacheData_retry_counterexample:
  "(let ls0 = \<lparr>items =
       [(''acs_cache_v1.0_20001_0bcaa0be'', Stored 100000 (Entry (Some 1800000000001) (Number 1797408000001) ''a'')),
        (''acs_cache_v1.0_20002_0bcaa0be'', Stored 100000 (Entry (Some 1800000000002) (Number 1797408000002) ''a'')),
        (''acs_cache_v1.0_20003_0bcaa0be'', Stored 100000 (Entry (Some 1800000000003) (Number 1797408000003) ''a'')),
        (''acs_cache_v1.0_20004_0bcaa0be'', Stored 100000 (Entry (Some 1800000000004) (Number 1797408000004) ''a'')),
        (''acs_cache_v1.0_20005_0bcaa0be'', Stored 100000 (Entry (Some 1800000000005) (Number 1797408000005) ''a'')),
        (''acs_cache_v1.0_20006_0bcaa0be'', Stored 100000 (Entry (Some 1800000000006) (Number 1797408000006) ''a'')),
        (''acs_cache_v1.0_20007_0bcaa0be'', Stored 100000 (Entry (Some 1800000000007) (Number 1797408000007) ''a'')),
        (''acs_cache_v1.0_20008_0bcaa0be'', Stored 100000 (Entry (Some 1800000000008) (Number 1797408000008) ''a'')),
        (''acs_cache_v1.0_20009_0bcaa0be'', Stored 100000 (Entry (Some 1800000000009) (Number 1797408000009) ''a'')),
        (''acs_cache_v1.0_20010_0bcaa0be'', Stored 100000 (Entry (Some 1800000000010) (Number 1797408000010) ''a'')),
        (''acs_cache_v1.0_30001_0bcaa0be'', Stored 2500000 (Entry (Some 1800000000500) (Number 1797408000500) ''b'')),
        (''acs_cache_v1.0_20011_0bcaa0be'', Stored 100000 (Entry (Some 1800000000011) (Number 1797408000011) ''a'')),
        (''acs_cache_v1.0_20012_0bcaa0be'', Stored 100000 (Entry (Some 1800000000012) (Number 1797408000012) ''a'')),
        (''acs_cache_v1.0_20013_0bcaa0be'', Stored 100000 (Entry (Some 1800000000013) (Number 1797408000013) ''a'')),
        (''acs_cache_v1.0_20014_0bcaa0be'', Stored 100000 (Entry (Some 1800000000014) (Number 1797408000014) ''a'')),
        (''acs_cache_v1.0_20015_0bcaa0be'', Stored 100000 (Entry (Some 1800000000015) (Number 1797408000015) ''a'')),
        (''acs_cache_v1.0_20016_0bcaa0be'', Stored 100000 (Entry (Some 1800000000016) (Number 1797408000016) ''a'')),
        (''acs_cache_v1.0_20017_0bcaa0be'', Stored 100000 (Entry (Some 1800000000017) (Number 1797408000017) ''a'')),
        (''acs_cache_v1.0_20018_0bcaa0be'', Stored 100000 (Entry (Some 1800000000018) (Number 1797408000018) ''a'')),
        (''acs_cache_v1.0_20019_0bcaa0be'', Stored 100000 (Entry (Some 1800000000019) (Number 1797408000019) ''a'')),
        (''acs_cache_v1.0_20020_0bcaa0be'', Stored 100000 (Entry (Some 1800000000020) (Number 1797408000020) ''a''))],
      quota = 5000000\<rparr>;
        r1 = cacheData ''acs_cache_v1.0_'' 1800000000000 ''10001'' [''B01003_001E''] ''x'' 3000000 ls0;
        r2 = cacheData ''acs_cache_v1.0_'' 1800000000001 ''10001'' (fst r1) ''x'' 3000000 (fst (snd r1));
        r3 = cacheData ''acs_cache_v1.0_'' 1800000000002 ''10001'' (fst r2) ''x'' 3000000 (fst (snd r2))
    in (snd (snd r1), length (items (fst (snd r1))),
        snd (snd r2), length (items (fst (snd r2))),
        snd (snd r3), length (items (fst (snd r3)))))
   = (RetryScheduled, 1, RetryScheduled, 0, Written, 1)"
proof -
  let ?ls0 = "\<lparr>items =
       [(''acs_cache_v1.0_20001_0bcaa0be'', Stored 100000 (Entry (Some 1800000000001) (Number 1797408000001) ''a'')),
        (''acs_cache_v1.0_20002_0bcaa0be'', Stored 100000 (Entry (Some 1800000000002) (Number 1797408000002) ''a'')),
        (''acs_cache_v1.0_20003_0bcaa0be'', Stored 100000 (Entry (Some 1800000000003) (Number 1797408000003) ''a'')),
        (''acs_cache_v1.0_20004_0bcaa0be'', Stored 100000 (Entry (Some 1800000000004) (Number 1797408000004) ''a'')),
        (''acs_cache_v1.0_20005_0bcaa0be'', Stored 100000 (Entry (Some 1800000000005) (Number 1797408000005) ''a'')),
        (''acs_cache_v1.0_20006_0bcaa0be'', Stored 100000 (Entry (Some 1800000000006) (Number 1797408000006) ''a'')),
        (''acs_cache_v1.0_20007_0bcaa0be'', Stored 100000 (Entry (Some 1800000000007) (Number 1797408000007) ''a'')),
        (''acs_cache_v1.0_20008_0bcaa0be'', Stored 100000 (Entry (Some 1800000000008) (Number 1797408000008) ''a'')),
        (''acs_cache_v1.0_20009_0bcaa0be'', Stored 100000 (Entry (Some 1800000000009) (Number 1797408000009) ''a'')),
        (''acs_cache_v1.0_20010_0bcaa0be'', Stored 100000 (Entry (Some 1800000000010) (Number 1797408000010) ''a'')),
        (''acs_cache_v1.0_30001_0bcaa0be'', Stored 2500000 (Entry (Some 1800000000500) (Number 1797408000500) ''b'')),
        (''acs_cache_v1.0_20011_0bcaa0be'', Stored 100000 (Entry (Some 1800000000011) (Number 1797408000011) ''a'')),
        (''acs_cache_v1.0_20012_0bcaa0be'', Stored 100000 (Entry (Some 1800000000012) (Number 1797408000012) ''a'')),
        (''acs_cache_v1.0_20013_0bcaa0be'', Stored 100000 (Entry (Some 1800000000013) (Number 1797408000013) ''a'')),
        (''acs_cache_v1.0_20014_0bcaa0be'', Stored 100000 (Entry (Some 1800000000014) (Number 1797408000014) ''a'')),
        (''acs_cache_v1.0_20015_0bcaa0be'', Stored 100000 (Entry (Some 1800000000015) (Number 1797408000015) ''a'')),
        (''acs_cache_v1.0_20016_0bcaa0be'', Stored 100000 (Entry (Some 1800000000016) (Number 1797408000016) ''a'')),
        (''acs_cache_v1.0_20017_0bcaa0be'', Stored 100000 (Entry (Some 1800000000017) (Number 1797408000017) ''a'')),
        (''acs_cache_v1.0_20018_0bcaa0be'', Stored 100000 (Entry (Some 1800000000018) (Number 1797408000018) ''a'')),
        (''acs_cache_v1.0_20019_0bcaa0be'', Stored 100000 (Entry (Some 1800000000019) (Number 1797408000019) ''a'')),
        (''acs_cache_v1.0_20020_0bcaa0be'', Stored 100000 (Entry (Some 1800000000020) (Number 1797408000020) ''a''))],
      quota = 5000000\<rparr>"
  have r1: "cacheData ''acs_cache_v1.0_'' 1800000000000 ''10001'' [''B01003_001E''] ''x'' 3000000 ?ls0
      = ([''B01003_001E''], \<lparr>items = [(''acs_cache_v1.0_30001_0bcaa0be'', Stored 2500000 (Entry (Some 1800000000500) (Number 1797408000500) ''b''))], quota = 5000000\<rparr>, RetryScheduled)"
    by (simp add: cacheData_def getCacheKey_def setItem_def storage_size_def error_name_def
        clearOldestCacheEntries_def oldest_entries_def sort_entries_def sorts_after_def
        startsWith_def entry_cachedAt_def removeItem_def)
  have r2: "cacheData ''acs_cache_v1.0_'' 1800000000001 ''10001'' [''B01003_001E''] ''x'' 3000000 \<lparr>items = [(''acs_cache_v1.0_30001_0bcaa0be'', Stored 2500000 (Entry (Some 1800000000500) (Number 1797408000500) ''b''))], quota = 5000000\<rparr>
      = ([''B01003_001E''], \<lparr>items = [], quota = 5000000\<rparr>, RetryScheduled)"
    by (simp add: cacheData_def getCacheKey_def setItem_def storage_size_def error_name_def
        clearOldestCacheEntries_def oldest_entries_def sort_entries_def sorts_after_def
        startsWith_def entry_cachedAt_def removeItem_def)
  have r3: "snd (snd (cacheData ''acs_cache_v1.0_'' 1800000000002 ''10001'' [''B01003_001E''] ''x'' 3000000
        \<lparr>items = [], quota = 5000000\<rparr>)) = Written
      \<and> length (items (fst (snd (cacheData ''acs_cache_v1.0_'' 1800000000002 ''10001''
        [''B01003_001E''] ''x'' 3000000 \<lparr>items = [], quota = 5000000\<rparr>)))) = 1"
    by (simp add: cacheData_def getCacheKey_def setItem_def storage_size_def length_hashString
        manageCacheSize_def Let_def)
  from r1 r2 r3 show ?thesis by (simp add: Let_def)
qed

section \<open>Properties of the rate limiter and the fetch service\<close>

lemma getCacheKey_sorts: "fst (getCacheKey cachePrefix z variables) = sort variables"
  by (simp add: getCacheKey_def)

lemma getFromCache_sorts: "fst (getFromCache cachePrefix now z variables ls) = sort variables"
  by (simp add: getFromCache_def getCacheKey_def split: option.splits json.splits)

lemma cacheData_sorts: "fst (cacheData cachePrefix now z variables data len ls) = sort variables"
  by (simp add: cacheData_def getCacheKey_def Let_def split: sum.splits)

lemma sort_sort: "sort (sort xs) = sort (xs :: string list)"
  by (simp add: sorted_sort_id)

lemma check_zip_sorts: "fst (fst (check_zip cachePrefix now z st)) = sort (fst (fst st))"
  using getFromCache_sorts [of cachePrefix now z "fst (fst st)" "fst (snd (fst st))"]
  by (cases st) (auto simp: check_zip_def split: prod.splits option.splits)

lemma fold_check_zip_sorts:
  "fst (fst (fold (check_zip cachePrefix now) zipCodes st)) =
     (if zipCodes = [] then fst (fst st) else sort (fst (fst st)))"
proof (induction zipCodes arbitrary: st)
  case Nil
  then show ?case by simp
next
  case (Cons z zs)
  show ?case
    using Cons.IH [of "check_zip cachePrefix now z st"]
    by (simp add: check_zip_sorts sort_sort)
qed

lemma store_fetched_sorts: "fst (store_fetched cachePrefix now entry st) = sort (fst st)"
  using cacheData_sorts [of cachePrefix now "fst entry" "fst st" "fst (snd entry)" "snd (snd entry)"
      "fst (snd st)"]
  by (cases st; cases entry) (auto simp: store_fetched_def split: prod.splits)

lemma fold_store_fetched_sorted:
  "sort (fst st) = fst st \<Longrightarrow> fst (fold (store_fetched cachePrefix now) entries st) = fst st"
proof (induction entries arbitrary: st)
  case Nil
  then show ?case by simp
next
  case (Cons e es)
  have "fst (store_fetched cachePrefix now e st) = fst st"
    using Cons.prems by (simp add: store_fetched_sorts)
  with Cons.IH [of "store_fetched cachePrefix now e st"] Cons.prems show ?case by simp
qed

lemma process_batch_sorted:
  "sort (fst st) = fst st \<Longrightarrow> fst (process_batch cachePrefix now logError r st) = fst st"
  by (cases r; cases st) (auto simp: process_batch_def fold_store_fetched_sorted)

lemma fold_process_batch_sorted:
  "sort (fst st) = fst st \<Longrightarrow> fst (fold (process_batch cachePrefix now logError) rs st) = fst st"
proof (induction rs arbitrary: st)
  case Nil
  then show ?case by simp
next
  case (Cons r rs)
  have "fst (process_batch cachePrefix now logError r st) = fst st"
    using Cons.prems by (rule process_batch_sorted)
  with Cons.IH [of "process_batch cachePrefix now logError r st"] Cons.prems show ?case by simp
qed

lemma chunkArray_returns: "0 < n \<Longrightarrow> \<exists>batches. chunkArray array n = Some batches"
  by (simp add: chunkArray_def)

text \<open>
  Claim C1 fails on the code. The timestamp that \<open>fetchBatchFromAPI\<close> records is a reading
  of \<open>performance.now()\<close>, while \<open>enforceRateLimit\<close> and \<open>cleanOldTimestamps\<close> prune against
  \<open>Date.now() - 60000\<close>: the recorded value (here 1500) is below that bound at once, so the
  window is empty again when the next request asks for admission. With a ceiling of 1, a
  second request is admitted without any wait one second after the first. Had the
  instant of the first request been recorded on the clock that prunes, the second
  admission would have waited until 60100 ms after it.
\<close>

theorem rate_limit_not_enforced:
  "enforceRateLimit 1 1800000000000 [] = Some (1800000000000, [])
   \<and> fetchBatchFromAPI_timestamps 1500 1800000000200 [] = []
   \<and> enforceRateLimit 1 1800000001000 (fetchBatchFromAPI_timestamps 1500 1800000000200 [])
       = Some (1800000001000, [])
   \<and> enforceRateLimit 1 1800000001000 [1800000000000] = Some (1800000060100, [])"
  by (simp add: enforceRateLimit.simps fetchBatchFromAPI_timestamps_def cleanOldTimestamps_def)

text \<open>
  Claim C10. \<open>getCacheKey\<close> leaves the array it is given sorted, and so do \<open>getFromCache\<close> and
  \<open>cacheData\<close>, which call it. \<open>fetchDataForZips\<close>, called with at least one ZIP code and a
  non-empty array of variables, returns (for a positive batch size) and leaves the
  caller's array sorted: the same elements in ascending order, whatever their order was.
\<close>

theorem fetchDataForZips_sorts_variables:
  "fst (getCacheKey cachePrefix z variables) = sort variables
   \<and> fst (getFromCache cachePrefix now z variables ls) = sort variables
   \<and> fst (cacheData cachePrefix now z variables data len ls) = sort variables
   \<and> (0 < batchSize \<and> zipCodes \<noteq> [] \<and> variables \<noteq> [] \<longrightarrow>
        (\<exists>ls' r. fetchDataForZips cachePrefix batchSize maxRetries logError net now zipCodes
                    variables ls = Some (sort variables, ls', r)))
   \<and> (zipCodes \<noteq> [] \<and> variables \<noteq> [] \<and>
        fetchDataForZips cachePrefix batchSize maxRetries logError net now zipCodes variables ls
          = Some (variables', ls', r) \<longrightarrow> variables' = sort variables)
   \<and> sorted (sort variables) \<and> mset (sort variables) = mset variables"
proof -
  let ?checked = "fold (check_zip cachePrefix now) zipCodes ((variables, ls, []), [])"
  have general: "variables' = sort variables"
    if ne: "zipCodes \<noteq> []" "variables \<noteq> []"
      and res: "fetchDataForZips cachePrefix batchSize maxRetries logError net now zipCodes variables ls
          = Some (variables', ls', r)" for variables' ls' r
  proof -
    obtain variables1 ls1 results1 missingZips
      where checked: "?checked = ((variables1, ls1, results1), missingZips)"
      by (cases ?checked) auto
    from fold_check_zip_sorts [of cachePrefix now zipCodes "((variables, ls, []), [])"] ne(1) checked
    have v1: "variables1 = sort variables" by simp
    from res ne checked obtain batches where ch: "chunkArray missingZips batchSize = Some batches"
      by (auto simp: fetchDataForZips_def split: option.splits)
    define attempts where "attempts = map (\<lambda>batch. fetchBatchWithRetry maxRetries (net batch)) batches"
    define final where "final = fold (process_batch cachePrefix now logError) (map fst attempts)
        (variables1, fold (\<lambda>r. replay_log logError (snd r)) attempts ls1, results1)"
    from res ne checked ch have "fst final = variables'"
      by (auto simp: fetchDataForZips_def Let_def final_def attempts_def split: prod.splits)
    moreover have "fst final = variables1"
      unfolding final_def by (rule fold_process_batch_sorted [THEN trans]) (simp_all add: v1 sort_sort)
    ultimately show ?thesis using v1 by simp
  qed
  have returns: "\<exists>ls' r. fetchDataForZips cachePrefix batchSize maxRetries logError net now zipCodes
                    variables ls = Some (sort variables, ls', r)"
    if pos: "0 < batchSize \<and> zipCodes \<noteq> [] \<and> variables \<noteq> []"
  proof -
    obtain variables1 ls1 results1 missingZips
      where checked: "?checked = ((variables1, ls1, results1), missingZips)"
      by (cases ?checked) auto
    from pos chunkArray_returns [of batchSize missingZips]
    obtain batches where ch: "chunkArray missingZips batchSize = Some batches" by blast
    define final where "final = fold (process_batch cachePrefix now logError)
        (map fst (map (\<lambda>batch. fetchBatchWithRetry maxRetries (net batch)) batches))
        (variables1, fold (\<lambda>r. replay_log logError (snd r))
           (map (\<lambda>batch. fetchBatchWithRetry maxRetries (net batch)) batches) ls1, results1)"
    from pos checked ch
    have some: "fetchDataForZips cachePrefix batchSize maxRetries logError net now zipCodes variables ls
          = Some (fst final, fst (snd final), Inr (snd (snd final)))"
      by (simp add: fetchDataForZips_def Let_def final_def split: prod.splits)
    with general [of "fst final" "fst (snd final)" "Inr (snd (snd final))"] pos show ?thesis by auto
  qed
  from general returns show ?thesis
    by (simp add: getCacheKey_sorts getFromCache_sorts cacheData_sorts)
qed

theorem fetchDataForZips_sorts_variables_witness:
  "\<exists>ls' r. fetchDataForZips ''acs_cache_v1.0_'' 10 3 (\<lambda>m e s. s)
      (\<lambda>batch a. Inl (Error ''Error'' ''HTTP 500: '')) 1800000000000
      [''10001''] [''B19013_001E'', ''B01003_001E''] \<lparr>items = [], quota = 5000000\<rparr>
    = Some ([''B01003_001E'', ''B19013_001E''], ls', r)"
proof -
  have srt: "sort [''B19013_001E'', ''B01003_001E''] = [''B01003_001E'', ''B19013_001E'']"
    by simp
  have pre: "(0 :: nat) < 10 \<and> [''10001''] \<noteq> [] \<and> [''B19013_001E'', ''B01003_001E''] \<noteq> []"
    by simp
  from fetchDataForZips_sorts_variables [where cachePrefix = "''acs_cache_v1.0_''"
      and variables = "[''B19013_001E'', ''B01003_001E'']" and batchSize = 10
      and zipCodes = "[''10001'']" and maxRetries = 3 and logError = "\<lambda>m e s. s"
      and net = "\<lambda>batch a. Inl (Error ''Error'' ''HTTP 500: '')" and now = 1800000000000
      and ls = "\<lparr>items = [], quota = 5000000\<rparr>"] pre
  show ?thesis unfolding srt by blast
qed

end
